theory Spec2Isabelle
  imports Main "HOL-Library.Word"
begin

unbundle bit_operations_syntax

section \<open>Data model of package trace\<close>

text \<open>
  Go's \<^verbatim>\<open>uint64\<close> and \<^verbatim>\<open>int64\<close> are 64-bit words (\<open>+\<close> wraps; \<open>sint\<close> reads an
  \<^verbatim>\<open>int64\<close>).  A \<^verbatim>\<open>time.Time\<close> is the number of nanoseconds since the zero time, so
  that \<^verbatim>\<open>IsZero()\<close> is \<open>t = 0\<close>.  A channel is named by a number; \<^verbatim>\<open>nil\<close> is \<open>None\<close>.
\<close>

type_synonym u64 = "64 word"
type_synonym i64 = "64 word"
type_synonym time = int
type_synonym chan = nat

text \<open>
  \<^verbatim>\<open>spans.ROSpan\<close> (embedded in \<^verbatim>\<open>Span\<close>): project, trace ID and span ID.
\<close>

record ROSpan =
  proj :: string
  traceID :: string
  spanID :: u64

text \<open>\<^verbatim>\<open>ct2.AttributeValue\<close>, \<^verbatim>\<open>ct2.Status\<close> and \<^verbatim>\<open>ct2.Span\<close>, with the fields package
  trace reads or writes.  A \<^verbatim>\<open>*ct2.TruncatableString\<close> is an optional string.  The two
  time stamps hold the instant whose \<^verbatim>\<open>TimeAsString\<close> rendering the source stores
  (\<open>None\<close> for the empty string).\<close>

record AttributeValue =
  StringValue :: "string option"
  IntValue :: i64
  BoolValue :: bool

record Status =
  Code :: i64
  Message :: string

record SpanDetails =
  Attributes :: "(string \<rightharpoonup> AttributeValue) option"
  ChildSpanCount :: i64
  DisplayName :: "string option"
  EndTime :: "time option"
  Name :: string
  ParentSpanId :: string
  SameProcessAsParentSpan :: bool
  SpanId :: string
  SpanKind :: string
  StartTime :: "time option"
  Status :: "Status option"

text \<open>
  \<^verbatim>\<open>type Span struct\<close>.  \<open>parent\<close> is a \<^verbatim>\<open>*Span\<close> in the source; it is only ever
  dereferenced for \<^verbatim>\<open>GetSpanID()\<close> (in \<^verbatim>\<open>initDetails\<close>), and the \<^verbatim>\<open>ROSpan\<close> of a
  \<^verbatim>\<open>Span\<close> is never assigned after \<^verbatim>\<open>newSpan\<close>, so the model keeps the parent's
  \<^verbatim>\<open>ROSpan\<close>.  \<open>details\<close> is a \<^verbatim>\<open>*ct2.Span\<close>: \<open>None\<close> is the nil pointer.  The mutex
  \<^verbatim>\<open>mu\<close> has no counterpart: the model runs one call at a time.
\<close>

record Span =
  ro :: ROSpan
  ch :: "chan option"
  start :: time
  end_time :: time
  parent :: "ROSpan option"
  details :: "SpanDetails option"
  spanInc :: u64
  kidSpan :: u64

text \<open>A \<^verbatim>\<open>spans.Factory\<close> returned by this package is a \<^verbatim>\<open>spans.ROSpan\<close> or a \<^verbatim>\<open>*Span\<close>.\<close>

datatype Factory = FROSpan ROSpan | FSpan Span

text \<open>A buffered channel of spans: its buffer (oldest first), its capacity, and
  whether \<^verbatim>\<open>close\<close> was called on it.\<close>

record Chan =
  buf :: "Span list"
  cap :: nat
  closed :: bool

text \<open>
  What the code reads from and writes to outside the span: the results of the successive
  reads of \<^verbatim>\<open>crypto/rand\<close> (\<open>None\<close> is a read error), the successive values of
  \<^verbatim>\<open>math/rand.Uint64()\<close>, the \<^verbatim>\<open>warnOnce\<close> latch with the warnings logged, the
  messages logged through \<^verbatim>\<open>lager.Fail\<close>, the channels, and the \<^verbatim>\<open>spanDropped\<close> counter.
\<close>

record World =
  crand :: "u64 option list"
  mrand :: "u64 list"
  warnOnce :: bool
  warns :: "string list"
  fails :: "string list"
  chans :: "chan \<Rightarrow> Chan"
  dropped :: nat

text \<open>
  How a call can end without a result: a nil-pointer dereference, a send on a closed
  channel, a slice made with a negative capacity (run-time panics of Go), or the end of
  the supplies \<open>crand\<close> and
  \<open>mrand\<close>, which bounds how long the model follows the loop of \<^verbatim>\<open>NewSpanID\<close>.
\<close>

datatype fault = NilDeref | SendOnClosed | BadSliceCap | OutOfRandom

section \<open>Identifiers\<close>

text \<open>
  Modelled from the spec: \<^verbatim>\<open>spans.HexSpanID\<close> belongs to the gcp-spans library, which is
  not part of the sources.  Section 4.A: \<^verbatim>\<open>HexSpanID(u64)\<close> is a 16-lowercase-hex-digit
  string, zero-padded.
\<close>

definition hexdigit :: "nat \<Rightarrow> char" where
  "hexdigit d = ''0123456789abcdef'' ! d"

fun hexn :: "nat \<Rightarrow> nat \<Rightarrow> string" where
  "hexn 0 n = []"
| "hexn (Suc k) n = hexn k (n div 16) @ [hexdigit (n mod 16)]"

definition HexSpanID :: "u64 \<Rightarrow> string" where
  "HexSpanID x = hexn 16 (unat x)"

text \<open>
  \<^verbatim>\<open>strconv.ParseUint(s, 16, 64)\<close> of the Go standard library, as \<^verbatim>\<open>NewTraceID\<close> uses it:
  the error is dropped and only the value is kept.  The value is 0 when the string is
  empty or holds a byte that is no hexadecimal digit, and the largest \<^verbatim>\<open>uint64\<close> when the
  digits overflow 64 bits.
\<close>

definition hexval :: "char \<Rightarrow> nat option" where
  "hexval c =
     (let n = (of_char c :: nat) in
      if 48 \<le> n \<and> n \<le> 57 then Some (n - 48)
      else if 97 \<le> n \<and> n \<le> 102 then Some (n - 87)
      else if 65 \<le> n \<and> n \<le> 70 then Some (n - 55)
      else None)"

fun ParseUint_loop :: "u64 \<Rightarrow> string \<Rightarrow> u64" where
  "ParseUint_loop n [] = n"
| "ParseUint_loop n (c # cs) =
     (case hexval c of
        None \<Rightarrow> 0
      | Some d \<Rightarrow>
          if 2 ^ 60 \<le> n then - 1
          else let n1 = n * 16 + of_nat d in
               if n1 < n * 16 then - 1 else ParseUint_loop n1 cs)"

definition ParseUint16 :: "string \<Rightarrow> u64" where
  "ParseUint16 s = (if s = [] then 0 else ParseUint_loop 0 s)"

text \<open>
  \<^verbatim>\<open>NewSpanID\<close>.  The loop \<^verbatim>\<open>for 0 == spanID { spanID = oldSpanID + mrand.Uint64() }\<close>
  takes its draws from the supply; it gives \<open>None\<close> when the supply ends before a nonzero
  value turns up.
\<close>

fun NewSpanID_loop :: "u64 \<Rightarrow> u64 \<Rightarrow> u64 list \<Rightarrow> (u64 \<times> u64 list) option" where
  "NewSpanID_loop oldSpanID sp [] = (if sp \<noteq> 0 then Some (sp, []) else None)"
| "NewSpanID_loop oldSpanID sp (m # ms) =
     (if sp \<noteq> 0 then Some (sp, m # ms) else NewSpanID_loop oldSpanID (oldSpanID + m) ms)"

definition warnRandom :: "World \<Rightarrow> World" where
  "warnRandom w =
     (if warnOnce w then w
      else w\<lparr>warnOnce := True,
             warns := warns w @ [''Error reading random bytes for new trace/span ID'']\<rparr>)"

definition NewSpanID :: "u64 \<Rightarrow> World \<Rightarrow> fault + (u64 \<times> World)" where
  "NewSpanID oldSpanID w =
     (case crand w of
        [] \<Rightarrow> Inl OutOfRandom
      | c # cs \<Rightarrow>
          (let w1 = (if c = None then warnRandom (w\<lparr>crand := cs\<rparr>) else w\<lparr>crand := cs\<rparr>);
               sp = (case c of None \<Rightarrow> 0 | Some v \<Rightarrow> v)
           in (case NewSpanID_loop oldSpanID sp (mrand w1) of
                 None \<Rightarrow> Inl OutOfRandom
               | Some (sp', ms) \<Rightarrow> Inr (sp', w1\<lparr>mrand := ms\<rparr>))))"

text \<open>\<^verbatim>\<open>NewTraceID\<close>: two span IDs, mixed with the halves of a 32-byte old trace ID.\<close>

definition NewTraceID :: "string \<Rightarrow> World \<Rightarrow> fault + (string \<times> World)" where
  "NewTraceID oldTraceID w =
     (case NewSpanID 0 w of
        Inl e \<Rightarrow> Inl e
      | Inr (one, w1) \<Rightarrow>
          (case NewSpanID 0 w1 of
             Inl e \<Rightarrow> Inl e
           | Inr (two, w2) \<Rightarrow>
               if length oldTraceID = 32 then
                 let add1 = ParseUint16 (take 16 oldTraceID);
                     one' = one + add1;
                     add2 = ParseUint16 (take 16 (drop 16 oldTraceID));
                     two' = two + add2;
                     two'' = (if one' = 0 \<and> two' = 0 then two' - add2 else two')
                 in Inr (HexSpanID one' @ HexSpanID two'', w2)
               else Inr (HexSpanID one @ HexSpanID two, w2)))"

section \<open>Spans\<close>

text \<open>
  Modelled from the spec: \<^verbatim>\<open>ROSpan.GetSpanPath\<close> and \<^verbatim>\<open>ROSpan.SetSpanID\<close> belong to the
  gcp-spans library, which is not part of the sources.  Sections 4.D and 4.G give the
  name the writer builds as \<^verbatim>\<open>{path}/{spanPath}\<close>, equal to
  \<^verbatim>\<open>projects/{project}/traces/{trace}/spans/{span}\<close> for the path \<^verbatim>\<open>projects/{project}\<close>
  of section 6, so the span path is \<^verbatim>\<open>traces/{trace}/spans/{span}\<close>, the span in 16
  hexadecimal digits.
\<close>

definition GetSpanPath :: "ROSpan \<Rightarrow> string" where
  "GetSpanPath r = ''traces/'' @ traceID r @ ''/spans/'' @ HexSpanID (spanID r)"

definition SetSpanID :: "u64 \<Rightarrow> ROSpan \<Rightarrow> ROSpan" where
  "SetSpanID k r = r\<lparr>spanID := k\<rparr>"

text \<open>The zero values \<^verbatim>\<open>spans.ROSpan{}\<close> and \<^verbatim>\<open>ct2.Span{}\<close>, and \<^verbatim>\<open>newSpan\<close>.\<close>

definition emptyROSpan :: ROSpan where
  "emptyROSpan = \<lparr>proj = [], traceID = [], spanID = 0\<rparr>"

definition emptyDetails :: SpanDetails where
  "emptyDetails =
     \<lparr>Attributes = None, ChildSpanCount = 0, DisplayName = None, EndTime = None,
      Name = [], ParentSpanId = [], SameProcessAsParentSpan = False, SpanId = [],
      SpanKind = [], StartTime = None, Status = None\<rparr>"

definition newSpan :: "ROSpan \<Rightarrow> chan option \<Rightarrow> Span" where
  "newSpan roSpan c =
     \<lparr>ro = roSpan, ch = c, start = 0, end_time = 0, parent = None, details = None,
      spanInc = 0, kidSpan = 0\<rparr>"

definition initDetails :: "Span \<Rightarrow> Span" where
  "initDetails s =
     (let d0 = emptyDetails\<lparr>SpanId := HexSpanID (spanID (ro s))\<rparr>;
          d1 = (if start s \<noteq> 0 then d0\<lparr>StartTime := Some (start s)\<rparr> else d0);
          d2 = (case parent s of
                  None \<Rightarrow> d1
                | Some p \<Rightarrow> d1\<lparr>ParentSpanId := HexSpanID (spanID p)\<rparr>)
      in s\<lparr>details := Some d2\<rparr>)"

text \<open>
  A message logged through the lager that \<^verbatim>\<open>getFailLager\<close> returns.  The model keeps the
  message; the stack trace and the key/value pairs of the log line are left out.
\<close>

definition logFail :: "string \<Rightarrow> World \<Rightarrow> World" where
  "logFail msg w = w\<lparr>fails := fails w @ [msg]\<rparr>"

text \<open>\<^verbatim>\<open>logIfEmpty\<close>.  The log line of a finished span reads \<^verbatim>\<open>s.details.DisplayName\<close>.\<close>

definition logIfEmpty :: "Span \<Rightarrow> bool \<Rightarrow> World \<Rightarrow> fault + (bool \<times> World)" where
  "logIfEmpty s orImported w =
     (if spanID (ro s) = 0 then
        Inr (True, logFail ''Disallowed method called on empty spans.Factory'' w)
      else if end_time s \<noteq> 0 then
        (case details s of
           None \<Rightarrow> Inl NilDeref
         | Some d \<Rightarrow>
             Inr (True, logFail ''Disallowed method called on Finish()ed spans.Factory'' w))
      else if orImported \<and> start s = 0 then
        Inr (True, logFail ''Disallowed method called on Import()ed spans.Factory'' w)
      else Inr (False, w))"

text \<open>\<^verbatim>\<open>GetDuration\<close> and \<^verbatim>\<open>time.Time.Sub\<close> (a \<^verbatim>\<open>time.Duration\<close> is an \<^verbatim>\<open>int64\<close> of
  nanoseconds, and \<^verbatim>\<open>Sub\<close> saturates).\<close>

definition Sub :: "time \<Rightarrow> time \<Rightarrow> int" where
  "Sub t u =
     (let d = t - u in
      if d < - (2 ^ 63) then - (2 ^ 63) else if 2 ^ 63 - 1 < d then 2 ^ 63 - 1 else d)"

definition GetDuration :: "Span \<Rightarrow> int" where
  "GetDuration s = (if end_time s = 0 then - 1000000000 else Sub (end_time s) (start s))"

subsection \<open>Sub-spans\<close>

text \<open>
  \<^verbatim>\<open>NewSubSpan\<close>, called at the instant \<open>now\<close> (the value of \<^verbatim>\<open>time.Now()\<close>).  The result
  is the factory returned, the parent after the call and the world after the call.
\<close>

definition firstKid :: "Span \<Rightarrow> World \<Rightarrow> fault + (Span \<times> World)" where
  "firstKid s w =
     (if kidSpan s = 0 then
        (case NewSpanID 0 w of
           Inl e \<Rightarrow> Inl e
         | Inr (r, w1) \<Rightarrow> Inr (s\<lparr>kidSpan := spanID (ro s), spanInc := 1 OR r\<rparr>, w1))
      else Inr (s, w))"

definition nextKid :: "Span \<Rightarrow> Span" where
  "nextKid s =
     (let s1 = s\<lparr>kidSpan := kidSpan s + spanInc s\<rparr>
      in if kidSpan s1 = 0 then s1\<lparr>kidSpan := kidSpan s1 + spanInc s1\<rparr> else s1)"

definition countKid :: "Span \<Rightarrow> Span" where
  "countKid s =
     (case details s of
        None \<Rightarrow> s
      | Some d \<Rightarrow>
          if end_time s = 0
          then s\<lparr>details := Some (d\<lparr>ChildSpanCount := ChildSpanCount d + 1\<rparr>)\<rparr>
          else s)"

definition makeKid :: "Span \<Rightarrow> time \<Rightarrow> Span" where
  "makeKid s now =
     (let kid = initDetails
                  ((newSpan (SetSpanID (kidSpan s) (ro s)) (ch s))
                     \<lparr>start := now, parent := Some (ro s)\<rparr>)
      in if start s \<noteq> 0
         then kid\<lparr>details := map_option (\<lambda>d. d\<lparr>SameProcessAsParentSpan := True\<rparr>) (details kid)\<rparr>
         else kid)"

definition NewSubSpan :: "Span \<Rightarrow> time \<Rightarrow> World \<Rightarrow> fault + (Factory \<times> Span \<times> World)" where
  "NewSubSpan s now w =
     (case (if spanID (ro s) = 0 then logIfEmpty s False w else Inr (False, w)) of
        Inl e \<Rightarrow> Inl e
      | Inr (isEmpty, w0) \<Rightarrow>
          if isEmpty then Inr (FROSpan emptyROSpan, s, w0)
          else (case firstKid s w0 of
                  Inl e \<Rightarrow> Inl e
                | Inr (s1, w1) \<Rightarrow>
                    (let s2 = countKid (nextKid s1)
                     in Inr (FSpan (makeKid s2 now), s2, w1))))"

subsection \<open>Mutators\<close>

text \<open>
  Each mutator returns its receiver, which the model returns in its state after the call.
  \<open>withDetails s w f\<close> is the body \<^verbatim>\<open>s.details.X = ...\<close> of a mutator: it panics on a
  nil \<^verbatim>\<open>details\<close>.
\<close>

definition withDetails ::
  "Span \<Rightarrow> World \<Rightarrow> (SpanDetails \<Rightarrow> SpanDetails) \<Rightarrow> fault + (Span \<times> World)" where
  "withDetails s w f =
     (case details s of
        None \<Rightarrow> Inl NilDeref
      | Some d \<Rightarrow> Inr (s\<lparr>details := Some (f d)\<rparr>, w))"

definition SetIsServer :: "Span \<Rightarrow> World \<Rightarrow> fault + (Span \<times> World)" where
  "SetIsServer s w =
     (case logIfEmpty s True w of
        Inl e \<Rightarrow> Inl e
      | Inr (b, w1) \<Rightarrow>
          if \<not> b then withDetails s w1 (\<lambda>d. d\<lparr>SpanKind := ''SERVER''\<rparr>) else Inr (s, w1))"

definition SetIsClient :: "Span \<Rightarrow> World \<Rightarrow> fault + (Span \<times> World)" where
  "SetIsClient s w =
     (case logIfEmpty s True w of
        Inl e \<Rightarrow> Inl e
      | Inr (b, w1) \<Rightarrow>
          if \<not> b then withDetails s w1 (\<lambda>d. d\<lparr>SpanKind := ''CLIENT''\<rparr>) else Inr (s, w1))"

definition SetIsPublisher :: "Span \<Rightarrow> World \<Rightarrow> fault + (Span \<times> World)" where
  "SetIsPublisher s w =
     (case logIfEmpty s True w of
        Inl e \<Rightarrow> Inl e
      | Inr (b, w1) \<Rightarrow>
          if \<not> b then withDetails s w1 (\<lambda>d. d\<lparr>SpanKind := ''PRODUCER''\<rparr>) else Inr (s, w1))"

definition SetIsSubscriber :: "Span \<Rightarrow> World \<Rightarrow> fault + (Span \<times> World)" where
  "SetIsSubscriber s w =
     (case logIfEmpty s True w of
        Inl e \<Rightarrow> Inl e
      | Inr (b, w1) \<Rightarrow>
          if \<not> b then withDetails s w1 (\<lambda>d. d\<lparr>SpanKind := ''CONSUMER''\<rparr>) else Inr (s, w1))"

definition SetDisplayName :: "string \<Rightarrow> Span \<Rightarrow> World \<Rightarrow> fault + (Span \<times> World)" where
  "SetDisplayName desc s w =
     (case logIfEmpty s True w of
        Inl e \<Rightarrow> Inl e
      | Inr (b, w1) \<Rightarrow>
          if \<not> b then
            (if desc = [] then withDetails s w1 (\<lambda>d. d\<lparr>DisplayName := None\<rparr>)
             else withDetails s w1 (\<lambda>d. d\<lparr>DisplayName := Some desc\<rparr>))
          else Inr (s, w1))"

definition setStatus :: "(Status \<Rightarrow> Status) \<Rightarrow> SpanDetails \<Rightarrow> SpanDetails" where
  "setStatus f d =
     (case Status d of
        None \<Rightarrow> d\<lparr>Status := Some (f \<lparr>Code = 0, Message = []\<rparr>)\<rparr>
      | Some st \<Rightarrow> d\<lparr>Status := Some (f st)\<rparr>)"

definition SetStatusCode :: "i64 \<Rightarrow> Span \<Rightarrow> World \<Rightarrow> fault + (Span \<times> World)" where
  "SetStatusCode code s w =
     (case logIfEmpty s True w of
        Inl e \<Rightarrow> Inl e
      | Inr (b, w1) \<Rightarrow>
          if b then Inr (s, w1)
          else withDetails s w1 (setStatus (\<lambda>st. st\<lparr>Code := code\<rparr>)))"

definition SetStatusMessage :: "string \<Rightarrow> Span \<Rightarrow> World \<Rightarrow> fault + (Span \<times> World)" where
  "SetStatusMessage msg s w =
     (case logIfEmpty s True w of
        Inl e \<Rightarrow> Inl e
      | Inr (b, w1) \<Rightarrow>
          if b then Inr (s, w1)
          else withDetails s w1 (setStatus (\<lambda>st. st\<lparr>Message := msg\<rparr>)))"

subsection \<open>Attributes\<close>

text \<open>
  The dynamic value of an \<^verbatim>\<open>interface{}\<close> argument, by the cases the type switch of
  \<^verbatim>\<open>addAttribute\<close> tells apart, in its order: \<^verbatim>\<open>nil\<close>, a \<^verbatim>\<open>string\<close>, an \<^verbatim>\<open>int64\<close>, an
  \<^verbatim>\<open>int\<close> (64 bits wide), a \<^verbatim>\<open>bool\<close>, a value with an \<^verbatim>\<open>Error()\<close> method (with the
  string it returns), a value with only a \<^verbatim>\<open>String()\<close> method (with its string), and a
  value of any other type (with the name \<^verbatim>\<open>%T\<close> prints).
\<close>

datatype val =
  VNil | VString string | VInt64 i64 | VInt i64 | VBool bool
  | VError string | VStringer string | VOther string

definition zeroAttr :: AttributeValue where
  "zeroAttr = \<lparr>StringValue = None, IntValue = 0, BoolValue = False\<rparr>"

definition putAttribute :: "string \<Rightarrow> AttributeValue \<Rightarrow> SpanDetails \<Rightarrow> SpanDetails" where
  "putAttribute key av d =
     (case Attributes d of
        None \<Rightarrow> d\<lparr>Attributes := Some (Map.empty(key \<mapsto> av))\<rparr>
      | Some m \<Rightarrow> d\<lparr>Attributes := Some (m(key \<mapsto> av))\<rparr>)"

text \<open>What the type switch does with the value: leave the call with \<^verbatim>\<open>nil\<close> (a zero
  value skipped), leave it with an error, or go on with an attribute value.\<close>

datatype switched = Skip | Invalid string | Attr AttributeValue

fun switchVal :: "val \<Rightarrow> bool \<Rightarrow> switched" where
  "switchVal VNil noZero = (if noZero then Skip else Invalid ''<nil>'')"
| "switchVal (VString t) noZero = Attr (zeroAttr\<lparr>StringValue := Some t\<rparr>)"
| "switchVal (VInt64 t) noZero =
     (if noZero \<and> t = 0 then Skip else Attr (zeroAttr\<lparr>IntValue := t\<rparr>))"
| "switchVal (VInt t) noZero =
     (if noZero \<and> t = 0 then Skip else Attr (zeroAttr\<lparr>IntValue := t\<rparr>))"
| "switchVal (VBool t) noZero =
     (if noZero \<and> \<not> t then Skip else Attr (zeroAttr\<lparr>BoolValue := t\<rparr>))"
| "switchVal (VError t) noZero = Attr (zeroAttr\<lparr>StringValue := Some t\<rparr>)"
| "switchVal (VStringer t) noZero = Attr (zeroAttr\<lparr>StringValue := Some t\<rparr>)"
| "switchVal (VOther ty) noZero = Invalid ty"

text \<open>\<^verbatim>\<open>addAttribute\<close>: the error returned (\<open>None\<close> is the nil error) and the span after.\<close>

definition addAttribute :: "string \<Rightarrow> val \<Rightarrow> bool \<Rightarrow> Span \<Rightarrow> fault + (string option \<times> Span)" where
  "addAttribute key v noZero s =
     (if key = [] then Inr (Some ''AddAttribute(): 'key' must not be empty string'', s)
      else (case switchVal v noZero of
              Skip \<Rightarrow> Inr (None, s)
            | Invalid ty \<Rightarrow>
                Inr (Some (''AddAttribute(): Invalid value type ('' @ ty @ '')''), s)
            | Attr av \<Rightarrow>
                (case details s of
                   None \<Rightarrow> Inl NilDeref
                 | Some d \<Rightarrow> Inr (None, s\<lparr>details := Some (putAttribute key av d)\<rparr>))))"

definition AddAttribute ::
  "string \<Rightarrow> val \<Rightarrow> Span \<Rightarrow> World \<Rightarrow> fault + (string option \<times> Span \<times> World)" where
  "AddAttribute key v s w =
     (case logIfEmpty s True w of
        Inl e \<Rightarrow> Inl e
      | Inr (b, w1) \<Rightarrow>
          if b then Inr (None, s, w1)
          else (case addAttribute key v False s of
                  Inl e \<Rightarrow> Inl e
                | Inr (err, s1) \<Rightarrow> Inr (err, s1, w1)))"

text \<open>The loop of \<^verbatim>\<open>AddPairs\<close> over the arguments from index \<^verbatim>\<open>i\<close> on, two at a time.\<close>

fun AddPairs_loop :: "val list \<Rightarrow> Span \<Rightarrow> World \<Rightarrow> fault + (Span \<times> World)" where
  "AddPairs_loop [] s w = Inr (s, w)"
| "AddPairs_loop [ix] s w =
     Inr (s, logFail ''Ignoring unpaired last arg to trace.Span AddPairs()'' w)"
| "AddPairs_loop (VString key # v # rest) s w =
     (case addAttribute key v True s of
        Inl e \<Rightarrow> Inl e
      | Inr (None, s1) \<Rightarrow> AddPairs_loop rest s1 w
      | Inr (Some err, s1) \<Rightarrow>
          AddPairs_loop rest s1 (logFail ''Error adding attribute to Span'' w))"
| "AddPairs_loop (ix # v # rest) s w =
     AddPairs_loop rest s (logFail ''Non-string key passed to trace.Span AddPairs()'' w)"

definition AddPairs :: "val list \<Rightarrow> Span \<Rightarrow> World \<Rightarrow> fault + (Span \<times> World)" where
  "AddPairs pairs s w =
     (case logIfEmpty s True w of
        Inl e \<Rightarrow> Inl e
      | Inr (b, w1) \<Rightarrow> if b then Inr (s, w1) else AddPairs_loop pairs s w1)"

subsection \<open>Finish\<close>

text \<open>
  The \<^verbatim>\<open>select\<close> of \<^verbatim>\<open>Finish\<close>: a send that does not block.  It proceeds when the buffer
  of the channel has room, panics on a closed channel, and otherwise (a full buffer, or
  the nil channel) takes the \<^verbatim>\<open>default\<close> branch, \<^verbatim>\<open>spanDropped()\<close>.
\<close>

definition trySend :: "chan option \<Rightarrow> Span \<Rightarrow> World \<Rightarrow> fault + World" where
  "trySend c v w =
     (case c of
        None \<Rightarrow> Inr (w\<lparr>dropped := dropped w + 1\<rparr>)
      | Some q \<Rightarrow>
          if closed (chans w q) then Inl SendOnClosed
          else if length (buf (chans w q)) < cap (chans w q)
          then Inr (w\<lparr>chans := (chans w)(q := (chans w q)\<lparr>buf := buf (chans w q) @ [v]\<rparr>)\<rparr>)
          else Inr (w\<lparr>dropped := dropped w + 1\<rparr>))"

text \<open>\<^verbatim>\<open>Finish\<close>, called at the instant \<open>now\<close> in a process whose \<^verbatim>\<open>os.Args[0]\<close> is
  \<open>argv0\<close>: the duration returned, the span after the call and the world after it.\<close>

definition Finish :: "time \<Rightarrow> string \<Rightarrow> Span \<Rightarrow> World \<Rightarrow> fault + (int \<times> Span \<times> World)" where
  "Finish now argv0 s w =
     (case logIfEmpty s True w of
        Inl e \<Rightarrow> Inl e
      | Inr (b, w1) \<Rightarrow>
          if b then Inr (0, s, w1)
          else (case details s of
                  None \<Rightarrow> Inl NilDeref
                | Some d \<Rightarrow>
                    (case (if DisplayName d = None then SetDisplayName argv0 s w1
                           else Inr (s, w1)) of
                       Inl e \<Rightarrow> Inl e
                     | Inr (s1, w2) \<Rightarrow>
                         (case withDetails (s1\<lparr>end_time := now\<rparr>) w2
                                 (\<lambda>d. d\<lparr>EndTime := Some now\<rparr>) of
                            Inl e \<Rightarrow> Inl e
                          | Inr (s2, w3) \<Rightarrow>
                              (case trySend (ch s2) s2 w3 of
                                 Inl e \<Rightarrow> Inl e
                               | Inr w4 \<Rightarrow> Inr (Sub (end_time s2) (start s2), s2, w4))))))"

section \<open>The batch writer\<close>

text \<open>
  What one pass of the \<^verbatim>\<open>select\<close> of \<^verbatim>\<open>writeSpans\<close> can receive: a span from the
  queue, the closing of the queue, or the firing of the timer.
\<close>

datatype event = Recv Span | QueueClosed | Timeout

datatype rpc = RpcOk | RpcTimeout | RpcFail

text \<open>
  The state of one runner: the batch collected, whether \<^verbatim>\<open>timeout\<close> is non-nil (the
  timer is active), and what the runner has done so far: the batches passed to
  \<^verbatim>\<open>BatchWrite\<close>, the spans sent back on their own channel, the labels passed to
  \<^verbatim>\<open>spanCreated\<close>, the failures logged, and whether it has sent on \<^verbatim>\<open>dones\<close>.
  \<^verbatim>\<open>lager.Trace\<close> lines and \<^verbatim>\<open>capacity.Record\<close> are left out.
\<close>

record Runner =
  batch :: "SpanDetails list"
  timeout :: bool
  written :: "SpanDetails list list"
  replies :: "(chan \<times> Span) list"
  created :: "string list"
  runnerFails :: "string list"
  doneSent :: bool

definition startRunner :: Runner where
  "startRunner =
     \<lparr>batch = [], timeout = False, written = [], replies = [], created = [],
      runnerFails = [], doneSent = False\<rparr>"

text \<open>The write of a non-empty batch; \<open>call\<close> is the outcome of the \<^verbatim>\<open>BatchWrite\<close> call.\<close>

definition writeBatch :: "(SpanDetails list \<Rightarrow> rpc) \<Rightarrow> Runner \<Rightarrow> Runner" where
  "writeBatch call r =
     (let r1 = r\<lparr>timeout := False, written := written r @ [batch r]\<rparr>;
          r2 = (case call (batch r) of
                  RpcOk \<Rightarrow> r1\<lparr>created := created r1 @ [''ok'']\<rparr>
                | RpcTimeout \<Rightarrow> r1\<lparr>created := created r1 @ [''timeout'']\<rparr>
                | RpcFail \<Rightarrow>
                    r1\<lparr>created := created r1 @ [''fail''],
                       runnerFails := runnerFails r1 @ [''Failed to create span batch'']\<rparr>)
      in r2\<lparr>batch := []\<rparr>)"

text \<open>
  The end of a pass, from \<^verbatim>\<open>if !full && len(batch.Spans) < maxSpans\<close> on.  The flag is
  whether the runner has returned.
\<close>

definition endPass ::
  "int \<Rightarrow> (SpanDetails list \<Rightarrow> rpc) \<Rightarrow> bool \<Rightarrow> (chan \<times> Span) option \<Rightarrow> Runner \<Rightarrow> Runner" where
  "endPass maxSpans call full replySpan r =
     (if \<not> full \<and> int (length (batch r)) < maxSpans then r
      else (let r1 = (if batch r = [] then r else writeBatch call r)
            in case replySpan of
                 None \<Rightarrow> r1
               | Some reply \<Rightarrow> r1\<lparr>replies := replies r1 @ [reply]\<rparr>))"

text \<open>
  One pass of the loop.  A timer that is not active cannot fire: the pass then keeps
  waiting.  Logging the display name of a received span reads
  \<^verbatim>\<open>sp.details.DisplayName.Value\<close>, through two pointers.
\<close>

definition pass ::
  "chan \<Rightarrow> string \<Rightarrow> int \<Rightarrow> (SpanDetails list \<Rightarrow> rpc) \<Rightarrow> event \<Rightarrow> Runner
     \<Rightarrow> fault + (bool \<times> Runner)" where
  "pass queue path maxSpans call ev r0 =
     (let r = (if \<not> timeout r0 \<and> batch r0 \<noteq> [] then r0\<lparr>timeout := True\<rparr> else r0)
      in case ev of
           QueueClosed \<Rightarrow> Inr (True, r\<lparr>doneSent := True\<rparr>)
         | Timeout \<Rightarrow>
             if \<not> timeout r then Inr (False, r)
             else if batch r = [] then Inr (False, r\<lparr>timeout := False\<rparr>)
             else Inr (False, endPass maxSpans call True None (r\<lparr>timeout := False\<rparr>))
         | Recv sp \<Rightarrow>
             if spanID (ro sp) = 0 then
               (case ch sp of
                  None \<Rightarrow> Inr (False, endPass maxSpans call True None r)
                | Some c \<Rightarrow>
                    if c \<noteq> queue then
                      (if spanInc sp = 1 then Inr (False, r\<lparr>replies := replies r @ [(c, sp)]\<rparr>)
                       else Inr (False, endPass maxSpans call True (Some (c, sp)) r))
                    else Inr (False, endPass maxSpans call True None r))
             else
               (case details sp of
                  None \<Rightarrow> Inl NilDeref
                | Some d \<Rightarrow>
                    if DisplayName d = None then Inl NilDeref
                    else Inr (False,
                           endPass maxSpans call False None
                             (r\<lparr>batch := batch r @
                                  [d\<lparr>Name := path @ ''/'' @ GetSpanPath (ro sp)\<rparr>]\<rparr>))))"

fun writeSpans_loop ::
  "chan \<Rightarrow> string \<Rightarrow> int \<Rightarrow> (SpanDetails list \<Rightarrow> rpc) \<Rightarrow> event list \<Rightarrow> Runner
     \<Rightarrow> fault + Runner" where
  "writeSpans_loop queue path maxSpans call [] r = Inr r"
| "writeSpans_loop queue path maxSpans call (ev # evs) r =
     (case pass queue path maxSpans call ev r of
        Inl e \<Rightarrow> Inl e
      | Inr (returned, r1) \<Rightarrow>
          if returned then Inr r1 else writeSpans_loop queue path maxSpans call evs r1)"

text \<open>\<^verbatim>\<open>writeSpans\<close> on the events it meets; \<^verbatim>\<open>make\<close> panics on a negative capacity.\<close>

definition writeSpans ::
  "chan \<Rightarrow> string \<Rightarrow> int \<Rightarrow> (SpanDetails list \<Rightarrow> rpc) \<Rightarrow> event list \<Rightarrow> fault + Runner" where
  "writeSpans queue path maxSpans call evs =
     (if maxSpans < 0 then Inl BadSliceCap
      else writeSpans_loop queue path maxSpans call evs startRunner)"

text \<open>The spans a runner receives from the events, up to the closing of the queue.\<close>

fun received :: "event list \<Rightarrow> Span list" where
  "received [] = []"
| "received (Recv sp # evs) = sp # received evs"
| "received (QueueClosed # evs) = []"
| "received (Timeout # evs) = received evs"

text \<open>The entry the runner appends for a span: its details with the name filled in.\<close>

definition batchEntry :: "string \<Rightarrow> Span \<Rightarrow> SpanDetails option" where
  "batchEntry project sp =
     map_option
       (\<lambda>d. d\<lparr>Name := ''projects/'' @ project @ ''/traces/'' @ traceID (ro sp) @ ''/spans/''
                       @ HexSpanID (spanID (ro sp))\<rparr>)
       (details sp)"

section \<open>Sequences of calls\<close>

text \<open>Successive \<^verbatim>\<open>NewSubSpan\<close> calls on one parent, at the given instants: the factories
  returned, in order, and the parent and the world after the last call.\<close>

fun NewSubSpans :: "time list \<Rightarrow> Span \<Rightarrow> World \<Rightarrow> fault + (Factory list \<times> Span \<times> World)" where
  "NewSubSpans [] s w = Inr ([], s, w)"
| "NewSubSpans (now # nows) s w =
     (case NewSubSpan s now w of
        Inl e \<Rightarrow> Inl e
      | Inr (f, s1, w1) \<Rightarrow>
          (case NewSubSpans nows s1 w1 of
             Inl e \<Rightarrow> Inl e
           | Inr (fs, s2, w2) \<Rightarrow> Inr (f # fs, s2, w2)))"

text \<open>
  The walk of the child span IDs in the words of the specification: from \<open>k\<close>, every call
  adds \<open>inc\<close>, and adds it once more when the sum is zero.
\<close>

definition walkStep :: "u64 \<Rightarrow> u64 \<Rightarrow> u64" where
  "walkStep inc k = (if k + inc = 0 then k + inc + inc else k + inc)"

fun walk :: "u64 \<Rightarrow> u64 \<Rightarrow> nat \<Rightarrow> u64 list" where
  "walk inc k 0 = []"
| "walk inc k (Suc n) = walkStep inc k # walk inc (walkStep inc k) n"

text \<open>The calls a program can make on one span, with what each reads from outside
  (the instant of the call, \<^verbatim>\<open>os.Args[0]\<close>).\<close>

datatype op =
  OpNewSubSpan time
  | OpFinish time string
  | OpSetDisplayName string
  | OpSetIsServer
  | OpSetIsClient
  | OpSetIsPublisher
  | OpSetIsSubscriber
  | OpAddAttribute string val
  | OpAddPairs "val list"
  | OpSetStatusCode i64
  | OpSetStatusMessage string

fun apply_op :: "op \<Rightarrow> Span \<Rightarrow> World \<Rightarrow> fault + (Span \<times> World)" where
  "apply_op (OpNewSubSpan now) s w =
     (case NewSubSpan s now w of Inl e \<Rightarrow> Inl e | Inr (f, s1, w1) \<Rightarrow> Inr (s1, w1))"
| "apply_op (OpFinish now argv0) s w =
     (case Finish now argv0 s w of Inl e \<Rightarrow> Inl e | Inr (d, s1, w1) \<Rightarrow> Inr (s1, w1))"
| "apply_op (OpSetDisplayName desc) s w = SetDisplayName desc s w"
| "apply_op OpSetIsServer s w = SetIsServer s w"
| "apply_op OpSetIsClient s w = SetIsClient s w"
| "apply_op OpSetIsPublisher s w = SetIsPublisher s w"
| "apply_op OpSetIsSubscriber s w = SetIsSubscriber s w"
| "apply_op (OpAddAttribute key v) s w =
     (case AddAttribute key v s w of Inl e \<Rightarrow> Inl e | Inr (err, s1, w1) \<Rightarrow> Inr (s1, w1))"
| "apply_op (OpAddPairs pairs) s w = AddPairs pairs s w"
| "apply_op (OpSetStatusCode code) s w = SetStatusCode code s w"
| "apply_op (OpSetStatusMessage msg) s w = SetStatusMessage msg s w"

fun run :: "op list \<Rightarrow> Span \<Rightarrow> World \<Rightarrow> fault + (Span \<times> World)" where
  "run [] s w = Inr (s, w)"
| "run (x # xs) s w =
     (case apply_op x s w of Inl e \<Rightarrow> Inl e | Inr (s1, w1) \<Rightarrow> run xs s1 w1)"

text \<open>Whether the call is a \<^verbatim>\<open>NewSubSpan\<close> that returns a new span, made while the end
  time stamp of its receiver is zero; and how many calls of a sequence are.\<close>

fun kidWhileOpen :: "op \<Rightarrow> Span \<Rightarrow> World \<Rightarrow> bool" where
  "kidWhileOpen (OpNewSubSpan now) s w =
     (end_time s = 0 \<and>
      (case NewSubSpan s now w of Inr (FSpan kid, s1, w1) \<Rightarrow> True | _ \<Rightarrow> False))"
| "kidWhileOpen x s w = False"

fun kidsWhileOpen :: "op list \<Rightarrow> Span \<Rightarrow> World \<Rightarrow> nat" where
  "kidsWhileOpen [] s w = 0"
| "kidsWhileOpen (x # xs) s w =
     (case apply_op x s w of
        Inl e \<Rightarrow> 0
      | Inr (s1, w1) \<Rightarrow> (if kidWhileOpen x s w then 1 else 0) + kidsWhileOpen xs s1 w1)"

text \<open>The four states of a span, as \<^verbatim>\<open>logIfEmpty\<close> tells them apart.\<close>

definition isEmpty :: "Span \<Rightarrow> bool" where
  "isEmpty s = (spanID (ro s) = 0)"

definition isFinished :: "Span \<Rightarrow> bool" where
  "isFinished s = (spanID (ro s) \<noteq> 0 \<and> end_time s \<noteq> 0)"

definition isImported :: "Span \<Rightarrow> bool" where
  "isImported s = (spanID (ro s) \<noteq> 0 \<and> end_time s = 0 \<and> start s = 0)"

definition isLive :: "Span \<Rightarrow> bool" where
  "isLive s = (spanID (ro s) \<noteq> 0 \<and> end_time s = 0 \<and> start s \<noteq> 0)"

section \<open>Vocabulary of the statements\<close>

text \<open>The span ID of a factory (\<^verbatim>\<open>GetSpanID()\<close>).\<close>

fun GetSpanID :: "Factory \<Rightarrow> u64" where
  "GetSpanID (FROSpan r) = spanID r"
| "GetSpanID (FSpan s) = spanID (ro s)"

text \<open>The message \<^verbatim>\<open>logIfEmpty\<close> logs for a span whose end time is set.\<close>

definition finishedLog :: "Span \<Rightarrow> string" where
  "finishedLog s =
     (if spanID (ro s) = 0 then ''Disallowed method called on empty spans.Factory''
      else ''Disallowed method called on Finish()ed spans.Factory'')"

text \<open>The attribute value of a string, and the attribute map of a details record (empty
  when \<^verbatim>\<open>Attributes\<close> is nil).\<close>

definition stringAttr :: "string \<Rightarrow> AttributeValue" where
  "stringAttr t = \<lparr>StringValue = Some t, IntValue = 0, BoolValue = False\<rparr>"

definition attributeMap :: "SpanDetails \<Rightarrow> (string \<rightharpoonup> AttributeValue)" where
  "attributeMap d = (case Attributes d of None \<Rightarrow> Map.empty | Some m \<Rightarrow> m)"

text \<open>The child count of a span, when it has details.\<close>

definition childCount :: "Span \<Rightarrow> i64 option" where
  "childCount s = map_option ChildSpanCount (details s)"

text \<open>Everything a runner has taken into a batch: the batches written, then the batch
  it holds.\<close>

definition taken :: "Runner \<Rightarrow> SpanDetails list" where
  "taken r = concat (written r) @ batch r"

text \<open>A span as \<^verbatim>\<open>Finish\<close> sends it when \<^verbatim>\<open>os.Args[0]\<close> is not empty: with details and a
  display name.\<close>

definition named :: "Span \<Rightarrow> bool" where
  "named sp = (case details sp of None \<Rightarrow> False | Some d \<Rightarrow> DisplayName d \<noteq> None)"

text \<open>The supplies last for \<open>k\<close> more calls \<^verbatim>\<open>NewSpanID(0)\<close>: \<open>k\<close> more reads of
  \<^verbatim>\<open>crypto/rand\<close>, and \<open>k\<close> more nonzero values of \<^verbatim>\<open>math/rand\<close>.\<close>

definition enoughRandom :: "nat \<Rightarrow> World \<Rightarrow> bool" where
  "enoughRandom k w =
     (k \<le> length (crand w) \<and> k \<le> length (filter (\<lambda>m. m \<noteq> 0) (mrand w)))"

text \<open>
  What the claims say of a sub-span of \<open>P\<close> made at the instant \<open>now\<close>: a new span with the
  trace ID, the project and the queue of \<open>P\<close>, started at \<open>now\<close> and not finished, whose
  details carry its own span ID and that of \<open>P\<close> in hexadecimal, and the flag
  \<^verbatim>\<open>SameProcessAsParentSpan\<close> exactly when the start of \<open>P\<close> is not zero.
\<close>

definition isChildOf :: "Span \<Rightarrow> time \<Rightarrow> Factory \<Rightarrow> bool" where
  "isChildOf P now f =
     (case f of
        FROSpan r \<Rightarrow> False
      | FSpan kid \<Rightarrow>
          traceID (ro kid) = traceID (ro P) \<and> proj (ro kid) = proj (ro P)
          \<and> start kid = now \<and> end_time kid = 0 \<and> ch kid = ch P
          \<and> map_option SpanId (details kid) = Some (HexSpanID (spanID (ro kid)))
          \<and> map_option ParentSpanId (details kid) = Some (HexSpanID (spanID (ro P)))
          \<and> map_option SameProcessAsParentSpan (details kid) = Some (start P \<noteq> 0))"

text \<open>The value \<open>m\<close> strides of \<open>inc\<close> after \<open>k\<close>.\<close>

definition stride :: "u64 \<Rightarrow> u64 \<Rightarrow> nat \<Rightarrow> u64" where
  "stride inc k m = k + of_nat m * inc"


subsection \<open>Examples\<close>

text \<open>A world whose channel 0 has room for one span, a live root span sending on it, the
  same span once finished, and a sentinel as \<^verbatim>\<open>WaitForIdleRunners\<close> sends it.\<close>

definition exampleWorld :: World where
  "exampleWorld =
     \<lparr>crand = [Some 6, Some 9, None], mrand = [0, 3, 7], warnOnce = False, warns = [],
      fails = [],
      chans = (\<lambda>q. \<lparr>buf = [], cap = (if q = 0 then 1 else 0), closed = False\<rparr>),
      dropped = 0\<rparr>"

definition exampleRoot :: Span where
  "exampleRoot =
     initDetails
       ((newSpan \<lparr>proj = ''demo'', traceID = ''0123456789abcdef0123456789abcdef'', spanID = 5\<rparr>
           (Some 0))\<lparr>start := 100\<rparr>)"

definition exampleDone :: Span where
  "exampleDone =
     exampleRoot\<lparr>end_time := 250,
       details := Some (emptyDetails\<lparr>SpanId := HexSpanID 5, StartTime := Some 100,
                                      DisplayName := Some ''server'', EndTime := Some 250\<rparr>)\<rparr>"

definition exampleSentinel :: Span where
  "exampleSentinel = (newSpan emptyROSpan (Some 7))"

definition exampleOps :: "op list" where
  "exampleOps = [OpNewSubSpan 110, OpFinish 130 ''server'', OpNewSubSpan 140]"

definition exampleEvents :: "event list" where
  "exampleEvents = [Recv exampleSentinel, Recv exampleDone, Timeout, QueueClosed]"


section \<open>Properties\<close>

subsection \<open>The states of a span\<close>

lemma logIfEmpty_live: "isLive s \<Longrightarrow> logIfEmpty s b w = Inr (False, w)"
  by (auto simp: logIfEmpty_def isLive_def)

lemma logIfEmpty_finished:
  "end_time s \<noteq> 0 \<Longrightarrow> details s \<noteq> None \<Longrightarrow>
   logIfEmpty s b w = Inr (True, logFail (finishedLog s) w)"
  by (auto simp: logIfEmpty_def finishedLog_def)

lemma logIfEmpty_not_live:
  "\<not> isLive s \<Longrightarrow> logIfEmpty s True w = Inr (b, w1) \<Longrightarrow> b"
  by (auto simp: logIfEmpty_def isLive_def split: if_splits option.splits)

lemma logIfEmpty_not_live_returns:
  "\<not> isLive s \<Longrightarrow> isFinished s \<longrightarrow> details s \<noteq> None \<Longrightarrow>
   \<exists>msg. logIfEmpty s True w = Inr (True, logFail msg w)"
  by (auto simp: logIfEmpty_def isLive_def isFinished_def split: if_splits option.splits)

lemma isLive_details_upd [simp]: "isLive (s\<lparr>details := x\<rparr>) = isLive s"
  by (simp add: isLive_def)

lemma exampleRoot_live: "isLive exampleRoot"
  by (simp add: exampleRoot_def isLive_def initDetails_def newSpan_def)

lemma exampleRoot_details:
  "details exampleRoot = Some (emptyDetails\<lparr>SpanId := HexSpanID 5, StartTime := Some 100\<rparr>)"
  by (simp add: exampleRoot_def initDetails_def newSpan_def)

lemma exampleRoot_fields:
  "start exampleRoot = 100" "ch exampleRoot = Some 0" "end_time exampleRoot = 0"
  "spanID (ro exampleRoot) = 5"
  by (simp_all add: exampleRoot_def initDetails_def newSpan_def)

lemma exampleWorld_open: "\<forall>q. ch exampleRoot = Some q \<longrightarrow> \<not> closed (chans exampleWorld q)"
  by (simp add: exampleWorld_def)

lemma exampleDone_finished: "end_time exampleDone \<noteq> 0" "details exampleDone \<noteq> None"
  by (simp_all add: exampleDone_def)

subsection \<open>Mutators on a finished span\<close>

text \<open>
  C9.  Each mutator of the chainable API (\<^verbatim>\<open>SetDisplayName\<close>, \<^verbatim>\<open>SetIsServer\<close>,
  \<^verbatim>\<open>SetIsClient\<close>, \<^verbatim>\<open>SetIsPublisher\<close>, \<^verbatim>\<open>SetIsSubscriber\<close>, \<^verbatim>\<open>AddAttribute\<close>,
  \<^verbatim>\<open>AddPairs\<close>, \<^verbatim>\<open>SetStatusCode\<close>, \<^verbatim>\<open>SetStatusMessage\<close>), called on a span whose end
  time is set, returns its receiver with the whole span, its details included, unchanged:
  the only effect is the failure \<^verbatim>\<open>logIfEmpty\<close> logs.  A finished span is rejected just as
  an empty or an imported one is.  (Every span whose end time is set has details, since
  only \<^verbatim>\<open>Finish\<close> sets it.)
\<close>

theorem mutators_reject_finished:
  fixes s :: Span and w :: World
  assumes "end_time s \<noteq> 0" and "details s \<noteq> None"
  shows "SetDisplayName desc s w = Inr (s, logFail (finishedLog s) w)
     \<and> SetIsServer s w = Inr (s, logFail (finishedLog s) w)
     \<and> SetIsClient s w = Inr (s, logFail (finishedLog s) w)
     \<and> SetIsPublisher s w = Inr (s, logFail (finishedLog s) w)
     \<and> SetIsSubscriber s w = Inr (s, logFail (finishedLog s) w)
     \<and> AddAttribute key v s w = Inr (None, s, logFail (finishedLog s) w)
     \<and> AddPairs pairs s w = Inr (s, logFail (finishedLog s) w)
     \<and> SetStatusCode code s w = Inr (s, logFail (finishedLog s) w)
     \<and> SetStatusMessage msg s w = Inr (s, logFail (finishedLog s) w)"
  using assms
  by (simp add: logIfEmpty_finished SetDisplayName_def SetIsServer_def SetIsClient_def
      SetIsPublisher_def SetIsSubscriber_def AddAttribute_def AddPairs_def SetStatusCode_def
      SetStatusMessage_def)

theorem mutators_reject_finished_witness:
  "end_time exampleDone \<noteq> 0 \<and> details exampleDone \<noteq> None
   \<and> SetDisplayName ''late'' exampleDone exampleWorld
       = Inr (exampleDone,
              exampleWorld\<lparr>fails := [''Disallowed method called on Finish()ed spans.Factory'']\<rparr>)
   \<and> SetStatusCode 3 exampleDone exampleWorld
       = Inr (exampleDone,
              exampleWorld\<lparr>fails := [''Disallowed method called on Finish()ed spans.Factory'']\<rparr>)"
proof -
  have "finishedLog exampleDone = ''Disallowed method called on Finish()ed spans.Factory''"
    by (simp add: finishedLog_def exampleDone_def exampleRoot_fields)
  moreover have "logFail m exampleWorld = exampleWorld\<lparr>fails := [m]\<rparr>" for m
    by (simp add: logFail_def exampleWorld_def)
  ultimately show ?thesis
    using mutators_reject_finished [OF exampleDone_finished,
        of "''late''" exampleWorld "[]" VNil "[]" 3 "[]"]
      exampleDone_finished
    by simp
qed

subsection \<open>Errors of AddAttribute\<close>

text \<open>
  C10.  \<^verbatim>\<open>AddAttribute\<close> on a factory that is not live (empty, imported or finished)
  returns the nil error, whatever the key and the value, and leaves the span, its attribute
  map included, as it was, logging one failure.  Whenever \<^verbatim>\<open>AddAttribute\<close> returns a
  non-nil error its receiver is live; and on a live span the empty key and a value of an
  unsupported type do return their errors.
\<close>

theorem AddAttribute_errors_only_when_live:
  fixes s s0 :: Span and w w0 :: World
  assumes "\<not> isLive s" and "isFinished s \<longrightarrow> details s \<noteq> None"
  shows "(\<exists>msg. AddAttribute key v s w = Inr (None, s, logFail msg w))
     \<and> (\<forall>err s1 w1. AddAttribute key0 v0 s0 w0 = Inr (Some err, s1, w1) \<longrightarrow> isLive s0)
     \<and> (isLive s0 \<longrightarrow>
          AddAttribute [] v0 s0 w0 =
            Inr (Some ''AddAttribute(): 'key' must not be empty string'', s0, w0))
     \<and> (isLive s0 \<and> key0 \<noteq> [] \<longrightarrow>
          AddAttribute key0 (VOther ty) s0 w0 =
            Inr (Some (''AddAttribute(): Invalid value type ('' @ ty @ '')''), s0, w0))"
proof (intro conjI allI impI)
  from logIfEmpty_not_live_returns [OF assms, of w]
  show "\<exists>msg. AddAttribute key v s w = Inr (None, s, logFail msg w)"
    by (auto simp: AddAttribute_def)
next
  fix err s1 w1
  assume a: "AddAttribute key0 v0 s0 w0 = Inr (Some err, s1, w1)"
  show "isLive s0"
  proof (rule ccontr)
    assume "\<not> isLive s0"
    with a show False
      by (auto simp: AddAttribute_def split: sum.splits if_splits dest: logIfEmpty_not_live)
  qed
next
  assume "isLive s0"
  then show "AddAttribute [] v0 s0 w0 =
            Inr (Some ''AddAttribute(): 'key' must not be empty string'', s0, w0)"
    by (simp add: AddAttribute_def logIfEmpty_live addAttribute_def)
next
  assume "isLive s0 \<and> key0 \<noteq> []"
  then show "AddAttribute key0 (VOther ty) s0 w0 =
            Inr (Some (''AddAttribute(): Invalid value type ('' @ ty @ '')''), s0, w0)"
    by (simp add: AddAttribute_def logIfEmpty_live addAttribute_def)
qed

theorem AddAttribute_errors_only_when_live_witness:
  "\<not> isLive exampleDone \<and> isFinished exampleDone \<and> details exampleDone \<noteq> None
   \<and> (\<exists>msg. AddAttribute [] (VOther ''float64'') exampleDone exampleWorld
               = Inr (None, exampleDone, logFail msg exampleWorld))
   \<and> isLive exampleRoot
   \<and> AddAttribute [] (VInt 1) exampleRoot exampleWorld
       = Inr (Some ''AddAttribute(): 'key' must not be empty string'', exampleRoot, exampleWorld)
   \<and> AddAttribute ''ratio'' (VOther ''float64'') exampleRoot exampleWorld
       = Inr (Some ''AddAttribute(): Invalid value type (float64)'', exampleRoot, exampleWorld)"
proof -
  have n: "\<not> isLive exampleDone" by (simp add: isLive_def exampleDone_def)
  have d: "isFinished exampleDone \<longrightarrow> details exampleDone \<noteq> None"
    by (simp add: exampleDone_def)
  from AddAttribute_errors_only_when_live [OF n d, of "[]" "VOther ''float64''" exampleWorld
      "''ratio''" "VInt 1" exampleRoot exampleWorld "''float64''"]
    n exampleDone_finished exampleRoot_live
  show ?thesis by (simp add: isFinished_def exampleDone_def exampleRoot_fields)
qed

subsection \<open>Finish\<close>

lemma Sub_exact: "\<bar>t - u\<bar> < 2 ^ 63 \<Longrightarrow> Sub t u = t - u"
  by (auto simp: Sub_def Let_def)

lemma Finish_live:
  fixes s :: Span and w :: World and now :: time and argv0 :: string
  assumes "isLive s" and "details s = Some d"
    and "\<forall>q. ch s = Some q \<longrightarrow> \<not> closed (chans w q)"
  shows "Finish now argv0 s w =
     Inr (Sub now (start s),
          s\<lparr>end_time := now,
            details := Some (d\<lparr>DisplayName := (if DisplayName d = None \<and> argv0 \<noteq> []
                                                 then Some argv0 else DisplayName d),
                               EndTime := Some now\<rparr>)\<rparr>,
          (case ch s of
             None \<Rightarrow> w\<lparr>dropped := dropped w + 1\<rparr>
           | Some q \<Rightarrow>
               if length (buf (chans w q)) < cap (chans w q)
               then w\<lparr>chans := (chans w)(q := (chans w q)\<lparr>buf := buf (chans w q) @
                  [s\<lparr>end_time := now,
                     details := Some (d\<lparr>DisplayName := (if DisplayName d = None \<and> argv0 \<noteq> []
                                                 then Some argv0 else DisplayName d),
                               EndTime := Some now\<rparr>)\<rparr>]\<rparr>)\<rparr>
               else w\<lparr>dropped := dropped w + 1\<rparr>))"
  using assms
  by (auto simp: Finish_def logIfEmpty_live SetDisplayName_def withDetails_def trySend_def
      split: option.splits)

text \<open>
  C3.  \<^verbatim>\<open>Finish\<close> on a live span, while the queue has not been closed: the end time
  becomes \<open>now\<close>, the end time stamp of the details is set, a display name that was unset
  becomes \<^verbatim>\<open>os.Args[0]\<close> (an empty \<^verbatim>\<open>os.Args[0]\<close> leaves it unset, as
  \<^verbatim>\<open>SetDisplayName("")\<close> does), and the span is sent by value without blocking: when the
  buffer of the queue has room the stamped span is appended to it once and nothing is
  counted as dropped; otherwise (a full buffer, or no queue) the queue is left as it was
  and the drop counter goes up by one.  In both cases the duration \<open>end - start\<close> is
  returned (as \<^verbatim>\<open>time.Time.Sub\<close> gives it: exact within the range of an \<^verbatim>\<open>int64\<close>).
\<close>

theorem Finish_live_span:
  fixes s :: Span and w :: World and now :: time and argv0 :: string
  assumes "isLive s" and "details s = Some d"
    and "\<forall>q. ch s = Some q \<longrightarrow> \<not> closed (chans w q)"
  shows "\<exists>s' d' w'.
     Finish now argv0 s w = Inr (Sub now (start s), s', w')
     \<and> s' = s\<lparr>end_time := now, details := Some d'\<rparr>
     \<and> d' = d\<lparr>DisplayName := (if DisplayName d = None \<and> argv0 \<noteq> [] then Some argv0
                                else DisplayName d),
              EndTime := Some now\<rparr>
     \<and> w' = (case ch s of
               None \<Rightarrow> w\<lparr>dropped := dropped w + 1\<rparr>
             | Some q \<Rightarrow>
                 if length (buf (chans w q)) < cap (chans w q)
                 then w\<lparr>chans := (chans w)(q := (chans w q)\<lparr>buf := buf (chans w q) @ [s']\<rparr>)\<rparr>
                 else w\<lparr>dropped := dropped w + 1\<rparr>)
     \<and> (\<bar>now - start s\<bar> < 2 ^ 63 \<longrightarrow> Sub now (start s) = now - start s)"
  by (simp add: Finish_live [OF assms] Sub_exact)

theorem Finish_live_span_witness:
  "isLive exampleRoot \<and> ch exampleRoot = Some 0 \<and> \<not> closed (chans exampleWorld 0)
   \<and> (\<exists>s' w'. Finish 250 ''server'' exampleRoot exampleWorld = Inr (150, s', w')
        \<and> end_time s' = 250
        \<and> map_option DisplayName (details s') = Some (Some ''server'')
        \<and> buf (chans w' 0) = [s'] \<and> dropped w' = 0)"
proof -
  let ?d = "emptyDetails\<lparr>SpanId := HexSpanID 5, StartTime := Some 100\<rparr>"
  from Finish_live_span [OF exampleRoot_live exampleRoot_details exampleWorld_open,
      of 250 "''server''"]
  obtain s' d' w' where
    f: "Finish 250 ''server'' exampleRoot exampleWorld = Inr (Sub 250 (start exampleRoot), s', w')"
    and s': "s' = exampleRoot\<lparr>end_time := 250, details := Some d'\<rparr>"
    and d': "d' = ?d\<lparr>DisplayName := (if DisplayName ?d = None \<and> ''server'' \<noteq> []
                                      then Some ''server'' else DisplayName ?d),
                    EndTime := Some 250\<rparr>"
    and w': "w' = (case ch exampleRoot of
               None \<Rightarrow> exampleWorld\<lparr>dropped := dropped exampleWorld + 1\<rparr>
             | Some q \<Rightarrow>
                 if length (buf (chans exampleWorld q)) < cap (chans exampleWorld q)
                 then exampleWorld\<lparr>chans := (chans exampleWorld)
                        (q := (chans exampleWorld q)\<lparr>buf := buf (chans exampleWorld q) @ [s']\<rparr>)\<rparr>
                 else exampleWorld\<lparr>dropped := dropped exampleWorld + 1\<rparr>)"
    by blast
  have "Sub 250 100 = 150" by (simp add: Sub_def)
  with f have "Finish 250 ''server'' exampleRoot exampleWorld = Inr (150, s', w')"
    by (simp add: exampleRoot_fields)
  moreover have "end_time s' = 250" by (simp add: s')
  moreover have "map_option DisplayName (details s') = Some (Some ''server'')"
    by (simp add: s' d' emptyDetails_def)
  moreover have "buf (chans w' 0) = [s'] \<and> dropped w' = 0"
    by (simp add: w' exampleRoot_fields exampleWorld_def)
  moreover have "\<not> closed (chans exampleWorld 0)" by (simp add: exampleWorld_def)
  ultimately show ?thesis
    using exampleRoot_live exampleRoot_fields(2) by blast
qed

text \<open>
  C6.  A second \<^verbatim>\<open>Finish\<close> on a span that a first \<^verbatim>\<open>Finish\<close> has finished (at an
  instant that is not the zero time) returns the zero duration and the span unchanged; the
  world changes only by one logged failure, so the queue and the drop counter are as the
  first call left them and the span is not sent again.
\<close>

theorem Finish_twice:
  fixes s :: Span and w :: World
  assumes "isLive s" and "details s = Some d" and "now \<noteq> 0"
    and "\<forall>q. ch s = Some q \<longrightarrow> \<not> closed (chans w q)"
  shows "\<exists>dur s1 w1.
     Finish now argv0 s w = Inr (dur, s1, w1)
     \<and> Finish now' argv0' s1 w1
         = Inr (0, s1, w1\<lparr>fails := fails w1 @
                  [''Disallowed method called on Finish()ed spans.Factory'']\<rparr>)"
proof -
  let ?s1 = "s\<lparr>end_time := now,
            details := Some (d\<lparr>DisplayName := (if DisplayName d = None \<and> argv0 \<noteq> []
                                                 then Some argv0 else DisplayName d),
                               EndTime := Some now\<rparr>)\<rparr>"
  have id: "spanID (ro ?s1) \<noteq> 0" using assms(1) by (simp add: isLive_def)
  have "\<And>w1. Finish now' argv0' ?s1 w1
         = Inr (0, ?s1, w1\<lparr>fails := fails w1 @
                  [''Disallowed method called on Finish()ed spans.Factory'']\<rparr>)"
    using assms(3) id
    by (simp add: Finish_def logIfEmpty_finished finishedLog_def logFail_def)
  then show ?thesis
    by (simp add: Finish_live [OF assms(1,2,4)])
qed

theorem Finish_twice_witness:
  "isLive exampleRoot \<and> (250::int) \<noteq> 0
   \<and> ch exampleRoot = Some 0 \<and> \<not> closed (chans exampleWorld 0)
   \<and> (\<exists>dur s1 w1.
     Finish 250 ''server'' exampleRoot exampleWorld = Inr (dur, s1, w1)
     \<and> Finish 300 ''server'' s1 w1
         = Inr (0, s1, w1\<lparr>fails := fails w1 @
                  [''Disallowed method called on Finish()ed spans.Factory'']\<rparr>))"
proof -
  have "\<not> closed (chans exampleWorld 0)" by (simp add: exampleWorld_def)
  then show ?thesis
    using Finish_twice [OF exampleRoot_live exampleRoot_details _ exampleWorld_open,
        of 250 "''server''" 300 "''server''"]
      exampleRoot_live exampleRoot_fields(2)
    by simp
qed

subsection \<open>AddPairs\<close>

lemma AddPairs_live: "isLive s \<Longrightarrow> AddPairs pairs s w = AddPairs_loop pairs s w"
  by (simp add: AddPairs_def logIfEmpty_live)

lemma put_put:
  "putAttribute k2 a2 (putAttribute k1 a1 d)
     = d\<lparr>Attributes := Some ((attributeMap d)(k1 \<mapsto> a1, k2 \<mapsto> a2))\<rparr>"
  by (simp add: putAttribute_def attributeMap_def split: option.splits)

text \<open>
  C8, as amended.  On a live span, a pair of \<^verbatim>\<open>AddPairs\<close> whose key is a non-empty
  string and whose value is the \<^verbatim>\<open>int\<close> or \<^verbatim>\<open>int64\<close> 0, \<^verbatim>\<open>false\<close> or \<^verbatim>\<open>nil\<close> is
  skipped without any log line (the call goes on with the remaining arguments, span and
  log unchanged), while the empty string is recorded as a value; a single trailing
  argument logs a failure, and so does a key that is not a string.  In particular
  \<^verbatim>\<open>AddPairs("a", 0, "b", false, "c", "", "d", "x")\<close> adds exactly the two attributes
  \<open>c \<mapsto> ""\<close> and \<open>d \<mapsto> "x"\<close> and logs nothing.
\<close>

theorem AddPairs_zero_skip:
  fixes s :: Span and w :: World
  assumes "isLive s" and "details s = Some d" and "key \<noteq> []"
  shows "AddPairs (VString key # VInt 0 # rest) s w = AddPairs rest s w
     \<and> AddPairs (VString key # VInt64 0 # rest) s w = AddPairs rest s w
     \<and> AddPairs (VString key # VBool False # rest) s w = AddPairs rest s w
     \<and> AddPairs (VString key # VNil # rest) s w = AddPairs rest s w
     \<and> AddPairs (VString key # VString [] # rest) s w
         = AddPairs rest (s\<lparr>details := Some (putAttribute key (stringAttr []) d)\<rparr>) w
     \<and> AddPairs [x] s w
         = Inr (s, w\<lparr>fails := fails w @
                  [''Ignoring unpaired last arg to trace.Span AddPairs()'']\<rparr>)
     \<and> ((\<forall>k. x \<noteq> VString k) \<longrightarrow>
          AddPairs (x # v # rest) s w
            = AddPairs rest s
                (w\<lparr>fails := fails w @ [''Non-string key passed to trace.Span AddPairs()'']\<rparr>))
     \<and> AddPairs [VString ''a'', VInt 0, VString ''b'', VBool False,
                  VString ''c'', VString [], VString ''d'', VString ''x''] s w
         = Inr (s\<lparr>details := Some (d\<lparr>Attributes :=
                   Some ((attributeMap d)(''c'' \<mapsto> stringAttr [], ''d'' \<mapsto> stringAttr ''x''))\<rparr>)\<rparr>,
                w)"
proof (intro conjI impI)
  assume "\<forall>k. x \<noteq> VString k"
  then show "AddPairs (x # v # rest) s w
            = AddPairs rest s
                (w\<lparr>fails := fails w @ [''Non-string key passed to trace.Span AddPairs()'']\<rparr>)"
    using assms(1) by (cases x) (simp_all add: AddPairs_live logFail_def)
qed (use assms in \<open>simp_all add: AddPairs_live addAttribute_def logFail_def zeroAttr_def
      stringAttr_def put_put\<close>)

theorem AddPairs_zero_skip_witness:
  "isLive exampleRoot \<and> ''user'' \<noteq> [] \<and>
   AddPairs [VString ''a'', VInt 0, VString ''b'', VBool False,
             VString ''c'', VString [], VString ''d'', VString ''x''] exampleRoot exampleWorld
    = Inr (exampleRoot\<lparr>details := Some (emptyDetails\<lparr>SpanId := HexSpanID 5,
             StartTime := Some 100,
             Attributes := Some [''c'' \<mapsto> stringAttr [], ''d'' \<mapsto> stringAttr ''x'']\<rparr>)\<rparr>,
           exampleWorld)"
  using AddPairs_zero_skip [OF exampleRoot_live exampleRoot_details,
      of "''user''" "[]" exampleWorld VNil VNil]
  by (simp add: exampleRoot_live attributeMap_def emptyDetails_def)

text \<open>
  The claim C8 as it was stated fails for a pair whose key is the empty string: its zero
  value is not skipped silently, since \<^verbatim>\<open>addAttribute\<close> checks the key first and
  \<^verbatim>\<open>AddPairs\<close> logs the error it returns.
\<close>

theorem AddPairs_empty_key_counterexample:
  "isLive exampleRoot \<and>
   AddPairs [VString [], VInt 0] exampleRoot exampleWorld
     = Inr (exampleRoot, exampleWorld\<lparr>fails := [''Error adding attribute to Span'']\<rparr>)"
  by (simp add: exampleRoot_live AddPairs_live addAttribute_def logFail_def exampleWorld_def)

subsection \<open>The batch writer\<close>

lemma taken_writeBatch [simp]: "taken (writeBatch call r) = taken r"
  by (simp add: taken_def writeBatch_def Let_def split: rpc.splits)

lemma taken_replies [simp]: "taken (r\<lparr>replies := x\<rparr>) = taken r"
  by (simp add: taken_def)

lemma taken_endPass [simp]: "taken (endPass maxSpans call full reply r) = taken r"
  by (simp add: endPass_def Let_def split: option.splits)

lemma taken_timeout [simp]: "taken (r\<lparr>timeout := t\<rparr>) = taken r"
  by (simp add: taken_def)

lemma taken_doneSent [simp]: "taken (r\<lparr>doneSent := t\<rparr>) = taken r"
  by (simp add: taken_def)

lemma taken_batch_any: "taken (r\<lparr>batch := b\<rparr>) = concat (written r) @ b"
  by (simp add: taken_def)

lemma batchEntry_path:
  "details sp = Some d \<Longrightarrow>
   batchEntry project sp
     = Some (d\<lparr>Name := (''projects/'' @ project) @ ''/'' @ GetSpanPath (ro sp)\<rparr>)"
  by (simp add: batchEntry_def GetSpanPath_def)

lemma pass_taken:
  assumes "pass queue (''projects/'' @ project) maxSpans call ev r = Inr (ret, r1)"
  shows "map Some (taken r1) =
     map Some (taken r) @
       (case ev of
          Recv sp \<Rightarrow> if spanID (ro sp) \<noteq> 0 then [batchEntry project sp] else []
        | _ \<Rightarrow> [])"
  using assms
  apply (cases ev)
  apply (auto simp: pass_def Let_def batchEntry_path taken_batch_any
      split: if_splits option.splits)
  apply (simp_all add: taken_def)
  done

lemma pass_returns:
  "pass queue path maxSpans call ev r = Inr (ret, r1) \<Longrightarrow> ret = (ev = QueueClosed)"
  by (cases ev) (auto simp: pass_def Let_def split: if_splits option.splits)

lemma loop_taken:
  "writeSpans_loop queue (''projects/'' @ project) maxSpans call evs r = Inr r' \<Longrightarrow>
   map Some (taken r') =
     map Some (taken r) @
       map (batchEntry project) (filter (\<lambda>sp. spanID (ro sp) \<noteq> 0) (received evs))"
proof (induction evs arbitrary: r)
  case Nil
  then show ?case by simp
next
  case (Cons ev evs)
  from Cons.prems obtain ret r1 where
    p: "pass queue (''projects/'' @ project) maxSpans call ev r = Inr (ret, r1)"
    by (auto split: sum.splits)
  show ?case
  proof (cases ev)
    case QueueClosed
    with p Cons.prems pass_returns [OF p] pass_taken [OF p] show ?thesis by simp
  next
    case (Recv sp)
    with pass_returns [OF p] have "\<not> ret" by simp
    with p Cons.prems
    have "writeSpans_loop queue (''projects/'' @ project) maxSpans call evs r1 = Inr r'"
      by simp
    from Cons.IH [OF this] pass_taken [OF p] Recv show ?thesis by simp
  next
    case Timeout
    with pass_returns [OF p] have "\<not> ret" by simp
    with p Cons.prems
    have "writeSpans_loop queue (''projects/'' @ project) maxSpans call evs r1 = Inr r'"
      by simp
    from Cons.IH [OF this] pass_taken [OF p] Timeout show ?thesis by simp
  qed
qed

lemma pass_ok:
  assumes "\<forall>sp. ev = Recv sp \<and> spanID (ro sp) \<noteq> 0 \<longrightarrow> named sp"
  shows "\<exists>ret r1. pass queue path maxSpans call ev r = Inr (ret, r1)"
  using assms
  by (cases ev) (auto simp: pass_def Let_def named_def split: option.splits)

lemma loop_ok:
  "\<forall>sp\<in>set (received evs). spanID (ro sp) \<noteq> 0 \<longrightarrow> named sp \<Longrightarrow>
   \<exists>r'. writeSpans_loop queue path maxSpans call evs r = Inr r'"
proof (induction evs arbitrary: r)
  case Nil
  then show ?case by simp
next
  case (Cons ev evs)
  have "\<forall>sp. ev = Recv sp \<and> spanID (ro sp) \<noteq> 0 \<longrightarrow> named sp"
    using Cons.prems by auto
  from pass_ok [OF this] obtain ret r1 where
    p: "pass queue path maxSpans call ev r = Inr (ret, r1)" by blast
  show ?case
  proof (cases ret)
    case True
    with p show ?thesis by simp
  next
    case False
    with pass_returns [OF p] have "ev \<noteq> QueueClosed" by simp
    then have "\<forall>sp\<in>set (received evs). spanID (ro sp) \<noteq> 0 \<longrightarrow> named sp"
      using Cons.prems by (cases ev) auto
    from Cons.IH [OF this, of r1] p False show ?thesis by simp
  qed
qed

lemma HexSpanID_5: "HexSpanID 5 = ''0000000000000005''"
  by code_simp

text \<open>
  C4.  Whatever a runner started for project \<open>project\<close> receives, and however its passes
  end, the entries it has taken into batches (the batches passed to \<^verbatim>\<open>BatchWrite\<close>, in
  order, then the batch it still holds) are exactly the details of the received spans
  whose span ID is not zero, in the order received, each with its name set to
  \<^verbatim>\<open>projects/{project}/traces/{trace}/spans/{span}\<close>.  So a span with span ID zero is never
  in a batch written, and every entry written is the named details of a received span with
  a nonzero span ID.  The runner does get that far (no nil dereference) when \<^verbatim>\<open>maxSpans\<close>
  is not negative and each such span has details and a display name, as the spans
  \<^verbatim>\<open>Finish\<close> sends have.
\<close>

theorem writeSpans_batches_named_spans:
  shows "(\<forall>r. writeSpans queue (''projects/'' @ project) maxSpans call evs = Inr r \<longrightarrow>
            map Some (concat (written r) @ batch r)
              = map (batchEntry project)
                  (filter (\<lambda>sp. spanID (ro sp) \<noteq> 0) (received evs))
          \<and> (\<forall>b\<in>set (written r). \<forall>d\<in>set b.
                \<exists>sp\<in>set (received evs). spanID (ro sp) \<noteq> 0 \<and> batchEntry project sp = Some d))
     \<and> (0 \<le> maxSpans \<and> (\<forall>sp\<in>set (received evs). spanID (ro sp) \<noteq> 0 \<longrightarrow> named sp)
          \<longrightarrow> (\<exists>r. writeSpans queue (''projects/'' @ project) maxSpans call evs = Inr r))"
proof (intro conjI allI impI)
  fix r assume a: "writeSpans queue (''projects/'' @ project) maxSpans call evs = Inr r"
  then have "writeSpans_loop queue (''projects/'' @ project) maxSpans call evs startRunner
               = Inr r"
    by (simp add: writeSpans_def split: if_splits)
  from loop_taken [OF this]
  show eq: "map Some (concat (written r) @ batch r)
              = map (batchEntry project)
                  (filter (\<lambda>sp. spanID (ro sp) \<noteq> 0) (received evs))"
    by (simp add: taken_def startRunner_def)
  show "\<forall>b\<in>set (written r). \<forall>d\<in>set b.
          \<exists>sp\<in>set (received evs). spanID (ro sp) \<noteq> 0 \<and> batchEntry project sp = Some d"
  proof (intro ballI)
    fix b d assume "b \<in> set (written r)" "d \<in> set b"
    then have "Some d \<in> set (map Some (concat (written r) @ batch r))" by auto
    then have "Some d \<in> set (map (batchEntry project)
                 (filter (\<lambda>sp. spanID (ro sp) \<noteq> 0) (received evs)))"
      by (simp only: eq)
    then show "\<exists>sp\<in>set (received evs). spanID (ro sp) \<noteq> 0 \<and> batchEntry project sp = Some d"
      by auto
  qed
next
  assume "0 \<le> maxSpans \<and> (\<forall>sp\<in>set (received evs). spanID (ro sp) \<noteq> 0 \<longrightarrow> named sp)"
  then show "\<exists>r. writeSpans queue (''projects/'' @ project) maxSpans call evs = Inr r"
    using loop_ok [of evs queue "''projects/'' @ project" maxSpans call startRunner]
    by (simp add: writeSpans_def)
qed

theorem writeSpans_batches_named_spans_witness:
  "(0::int) \<le> 2 \<and> named exampleDone
   \<and> (\<exists>r. writeSpans 0 (''projects/'' @ ''demo'') 2 (\<lambda>b. RpcOk) exampleEvents = Inr r
        \<and> map (map_option Name) (map Some (concat (written r) @ batch r))
            = [Some ''projects/demo/traces/0123456789abcdef0123456789abcdef/spans/0000000000000005''])"
proof -
  have rc: "received exampleEvents = [exampleSentinel, exampleDone]"
    by (simp add: exampleEvents_def)
  have z: "spanID (ro exampleSentinel) = 0" "spanID (ro exampleDone) = 5"
    by (simp_all add: exampleSentinel_def newSpan_def emptyROSpan_def exampleDone_def
        exampleRoot_fields)
  have n: "named exampleDone" by (simp add: named_def exampleDone_def)
  have e: "map_option Name (batchEntry ''demo'' exampleDone)
      = Some ''projects/demo/traces/0123456789abcdef0123456789abcdef/spans/0000000000000005''"
    by (simp add: batchEntry_def exampleDone_def exampleRoot_def initDetails_def newSpan_def
        HexSpanID_5)
  from writeSpans_batches_named_spans [of 0 "''demo''" 2 "\<lambda>b. RpcOk" exampleEvents]
  obtain r where r: "writeSpans 0 (''projects/'' @ ''demo'') 2 (\<lambda>b. RpcOk) exampleEvents = Inr r"
    and m: "map Some (concat (written r) @ batch r)
              = map (batchEntry ''demo'')
                  (filter (\<lambda>sp. spanID (ro sp) \<noteq> 0) (received exampleEvents))"
    using n z by (auto simp: rc)
  have "map (map_option Name) (map Some (concat (written r) @ batch r))
            = [Some ''projects/demo/traces/0123456789abcdef0123456789abcdef/spans/0000000000000005'']"
    by (simp only: m) (simp add: rc z e)
  with r n show ?thesis by auto
qed

subsection \<open>Sub-spans\<close>

lemma nextKid_fields [simp]:
  "kidSpan (nextKid s) = walkStep (spanInc s) (kidSpan s)"
  "spanInc (nextKid s) = spanInc s"
  "ro (nextKid s) = ro s" "start (nextKid s) = start s" "ch (nextKid s) = ch s"
  "details (nextKid s) = details s" "end_time (nextKid s) = end_time s"
  by (simp_all add: nextKid_def walkStep_def Let_def)

lemma countKid_fields [simp]:
  "kidSpan (countKid s) = kidSpan s"
  "spanInc (countKid s) = spanInc s"
  "ro (countKid s) = ro s" "start (countKid s) = start s" "ch (countKid s) = ch s"
  "end_time (countKid s) = end_time s"
  by (simp_all add: countKid_def split: option.splits)

lemma NewSubSpan_started:
  "spanID (ro s) \<noteq> 0 \<Longrightarrow> kidSpan s \<noteq> 0 \<Longrightarrow>
   NewSubSpan s now w = Inr (FSpan (makeKid (countKid (nextKid s)) now), countKid (nextKid s), w)"
  by (simp add: NewSubSpan_def firstKid_def Let_def)

lemma NewSubSpan_fresh:
  "spanID (ro s) \<noteq> 0 \<Longrightarrow> kidSpan s = 0 \<Longrightarrow> NewSpanID 0 w = Inr (r, w1) \<Longrightarrow>
   NewSubSpan s now w =
     Inr (FSpan (makeKid (countKid (nextKid (s\<lparr>kidSpan := spanID (ro s), spanInc := 1 OR r\<rparr>))) now),
          countKid (nextKid (s\<lparr>kidSpan := spanID (ro s), spanInc := 1 OR r\<rparr>)), w1)"
  by (simp add: NewSubSpan_def firstKid_def Let_def)

subsection \<open>The child count\<close>

lemma withDetails_count:
  "withDetails s w f = Inr (s1, w1) \<Longrightarrow> (\<And>d. ChildSpanCount (f d) = ChildSpanCount d) \<Longrightarrow>
   childCount s1 = childCount s"
  by (auto simp: withDetails_def childCount_def split: option.splits)

lemma setStatus_count: "ChildSpanCount (setStatus f d) = ChildSpanCount d"
  by (simp add: setStatus_def split: option.splits)

lemma putAttribute_count: "ChildSpanCount (putAttribute k av d) = ChildSpanCount d"
  by (simp add: putAttribute_def split: option.splits)

lemma SetDisplayName_count:
  "SetDisplayName desc s w = Inr (s1, w1) \<Longrightarrow> childCount s1 = childCount s"
  by (auto simp: SetDisplayName_def split: sum.splits if_splits dest!: withDetails_count)

lemma SetIsServer_count: "SetIsServer s w = Inr (s1, w1) \<Longrightarrow> childCount s1 = childCount s"
  by (auto simp: SetIsServer_def split: sum.splits if_splits dest!: withDetails_count)

lemma SetIsClient_count: "SetIsClient s w = Inr (s1, w1) \<Longrightarrow> childCount s1 = childCount s"
  by (auto simp: SetIsClient_def split: sum.splits if_splits dest!: withDetails_count)

lemma SetIsPublisher_count:
  "SetIsPublisher s w = Inr (s1, w1) \<Longrightarrow> childCount s1 = childCount s"
  by (auto simp: SetIsPublisher_def split: sum.splits if_splits dest!: withDetails_count)

lemma SetIsSubscriber_count:
  "SetIsSubscriber s w = Inr (s1, w1) \<Longrightarrow> childCount s1 = childCount s"
  by (auto simp: SetIsSubscriber_def split: sum.splits if_splits dest!: withDetails_count)

lemma SetStatusCode_count:
  "SetStatusCode c s w = Inr (s1, w1) \<Longrightarrow> childCount s1 = childCount s"
  by (auto simp: SetStatusCode_def setStatus_count split: sum.splits if_splits
      dest!: withDetails_count)

lemma SetStatusMessage_count:
  "SetStatusMessage m s w = Inr (s1, w1) \<Longrightarrow> childCount s1 = childCount s"
  by (auto simp: SetStatusMessage_def setStatus_count split: sum.splits if_splits
      dest!: withDetails_count)

lemma addAttribute_count:
  "addAttribute key v nz s = Inr (e, s1) \<Longrightarrow> childCount s1 = childCount s"
  by (auto simp: addAttribute_def childCount_def putAttribute_count
      split: if_splits switched.splits option.splits)

lemma AddAttribute_count:
  "AddAttribute key v s w = Inr (e, s1, w1) \<Longrightarrow> childCount s1 = childCount s"
  by (auto simp: AddAttribute_def split: sum.splits if_splits dest: addAttribute_count)

lemma AddPairs_loop_count:
  "AddPairs_loop pairs s w = Inr (s1, w1) \<Longrightarrow> childCount s1 = childCount s"
proof (induction pairs s w rule: AddPairs_loop.induct)
  case (3 key v rest s w)
  then show ?case
    by (auto split: sum.splits option.splits dest: addAttribute_count)
qed auto

lemma AddPairs_count:
  "AddPairs pairs s w = Inr (s1, w1) \<Longrightarrow> childCount s1 = childCount s"
  by (auto simp: AddPairs_def split: sum.splits if_splits dest: AddPairs_loop_count)

lemma Finish_count:
  "Finish now argv0 s w = Inr (dur, s1, w1) \<Longrightarrow> childCount s1 = childCount s"
  by (auto simp: Finish_def withDetails_def childCount_def
      split: sum.splits if_splits option.splits
      dest!: SetDisplayName_count [unfolded childCount_def])

lemma firstKid_same:
  "firstKid s w = Inr (s1, w1) \<Longrightarrow> details s1 = details s \<and> end_time s1 = end_time s"
  by (auto simp: firstKid_def split: if_splits sum.splits)

lemma NewSubSpan_count:
  assumes "NewSubSpan s now w = Inr (f, s1, w1)"
  shows "childCount s1 =
     (if end_time s = 0 \<and> (\<exists>kid. f = FSpan kid)
      then map_option (\<lambda>c. c + 1) (childCount s) else childCount s)"
  using assms
  by (auto simp: NewSubSpan_def childCount_def countKid_def logIfEmpty_def Let_def
      split: if_splits sum.splits option.splits dest!: firstKid_same)

lemma apply_op_count:
  assumes "apply_op x s w = Inr (s1, w1)"
  shows "childCount s1 =
     map_option (\<lambda>c. c + (if kidWhileOpen x s w then 1 else 0)) (childCount s)"
proof (cases x)
  case (OpNewSubSpan now)
  then obtain f where f: "NewSubSpan s now w = Inr (f, s1, w1)"
    using assms by (auto split: sum.splits)
  have "kidWhileOpen x s w = (end_time s = 0 \<and> (\<exists>kid. f = FSpan kid))"
    by (cases f) (simp_all add: OpNewSubSpan f)
  with NewSubSpan_count [OF f] show ?thesis
    by (cases "childCount s") (simp_all add: map_option.identity)
next
  case (OpFinish now argv0)
  with assms show ?thesis
    by (cases "childCount s") (auto split: sum.splits dest: Finish_count)
next
  case (OpAddAttribute key v)
  with assms show ?thesis
    by (cases "childCount s") (auto split: sum.splits dest: AddAttribute_count)
qed (use assms in \<open>cases "childCount s"; auto dest: SetDisplayName_count SetIsServer_count
    SetIsClient_count SetIsPublisher_count SetIsSubscriber_count AddPairs_count
    SetStatusCode_count SetStatusMessage_count\<close>)+

lemma run_count:
  "run xs s w = Inr (s', w') \<Longrightarrow>
   childCount s' = map_option (\<lambda>c. c + of_nat (kidsWhileOpen xs s w)) (childCount s)"
proof (induction xs arbitrary: s w)
  case Nil
  then show ?case by (cases "childCount s") simp_all
next
  case (Cons x xs)
  from Cons.prems obtain s1 w1 where
    a: "apply_op x s w = Inr (s1, w1)" and r: "run xs s1 w1 = Inr (s', w')"
    by (auto split: sum.splits)
  from Cons.IH [OF r] apply_op_count [OF a] a show ?case
    by (cases "childCount s") (simp_all add: add.assoc)
qed

lemma sint_count: "n < 2 ^ 63 \<Longrightarrow> sint (of_nat n :: 64 word) = int n"
  by (simp add: signed_of_nat signed_take_bit_int_eq_self)

text \<open>
  C2.  After any sequence of calls on a span that has details (every span but an
  imported one, which has no child count), the child count of its details has grown by
  the number of \<^verbatim>\<open>NewSubSpan\<close> calls of the sequence that returned a new span while the
  end time of the span was zero; it is that number for a span created with count zero
  (read as an \<^verbatim>\<open>int64\<close>, below \<open>2^63\<close>).  A \<^verbatim>\<open>NewSubSpan\<close> call on the span once its
  end time is set leaves its details, the count included, as they are.
\<close>

theorem childSpanCount_counts_open_subspans:
  assumes "run xs s w = Inr (s', w')" and "details s = Some d"
  shows "\<exists>d'. details s' = Some d'
     \<and> ChildSpanCount d' = ChildSpanCount d + of_nat (kidsWhileOpen xs s w)
     \<and> (ChildSpanCount d = 0 \<and> kidsWhileOpen xs s w < 2 ^ 63
          \<longrightarrow> sint (ChildSpanCount d') = int (kidsWhileOpen xs s w))
     \<and> (\<forall>now f s1 w1. end_time s' \<noteq> 0 \<and> NewSubSpan s' now w' = Inr (f, s1, w1)
          \<longrightarrow> details s1 = details s')"
proof -
  from run_count [OF assms(1)] assms(2) obtain d' where
    d': "details s' = Some d'"
      "ChildSpanCount d' = ChildSpanCount d + of_nat (kidsWhileOpen xs s w)"
    by (auto simp: childCount_def)
  have "\<forall>now f s1 w1. end_time s' \<noteq> 0 \<and> NewSubSpan s' now w' = Inr (f, s1, w1)
          \<longrightarrow> details s1 = details s'"
    by (auto simp: NewSubSpan_def countKid_def logIfEmpty_def Let_def
        split: if_splits sum.splits option.splits dest!: firstKid_same)
  with d' show ?thesis by (auto simp: sint_count)
qed

lemma NewSpanID_example:
  "NewSpanID 0 exampleWorld = Inr (6, exampleWorld\<lparr>crand := [Some 9, None]\<rparr>)"
  by (simp add: NewSpanID_def exampleWorld_def)

theorem childSpanCount_counts_open_subspans_witness:
  "details exampleRoot = Some (emptyDetails\<lparr>SpanId := HexSpanID 5, StartTime := Some 100\<rparr>)
   \<and> (\<exists>s' w' d'. run exampleOps exampleRoot exampleWorld = Inr (s', w')
         \<and> kidsWhileOpen exampleOps exampleRoot exampleWorld = 1
         \<and> details s' = Some d' \<and> ChildSpanCount d' = 1)"
proof -
  let ?w1 = "exampleWorld\<lparr>crand := [Some 9, None]\<rparr>"
  let ?r1 = "countKid (nextKid (exampleRoot\<lparr>kidSpan := 5, spanInc := 7\<rparr>))"
  have id: "spanID (ro exampleRoot) \<noteq> 0" "kidSpan exampleRoot = 0"
    by (simp_all add: exampleRoot_def initDetails_def newSpan_def)
  have s1: "NewSubSpan exampleRoot 110 exampleWorld = Inr (FSpan (makeKid ?r1 110), ?r1, ?w1)"
    using NewSubSpan_fresh [OF id NewSpanID_example, of 110]
    by (simp add: exampleRoot_fields)
  have l1: "isLive ?r1" by (simp add: isLive_def exampleRoot_fields)
  obtain d1 where d1: "details ?r1 = Some d1"
    by (simp add: countKid_def exampleRoot_details exampleRoot_fields)
  have o1: "\<forall>q. ch ?r1 = Some q \<longrightarrow> \<not> closed (chans ?w1 q)"
    by (simp add: exampleWorld_def)
  from Finish_live [OF l1 d1 o1, of 130 "''server''"] obtain dur r2 w2 where
    s2: "Finish 130 ''server'' ?r1 ?w1 = Inr (dur, r2, w2)"
    and r2: "r2 = ?r1\<lparr>end_time := 130,
            details := Some (d1\<lparr>DisplayName := (if DisplayName d1 = None \<and> ''server'' \<noteq> []
                                                 then Some ''server'' else DisplayName d1),
                               EndTime := Some 130\<rparr>)\<rparr>"
    by blast
  have k2: "spanID (ro r2) \<noteq> 0" "kidSpan r2 \<noteq> 0" "end_time r2 \<noteq> 0"
    by (simp_all add: r2 exampleRoot_fields walkStep_def)
  have s3: "NewSubSpan r2 140 w2 = Inr (FSpan (makeKid (countKid (nextKid r2)) 140), countKid (nextKid r2), w2)"
    by (rule NewSubSpan_started [OF k2(1,2)])
  have run: "run exampleOps exampleRoot exampleWorld = Inr (countKid (nextKid r2), w2)"
    by (simp add: exampleOps_def s1 s2 s3)
  have kids: "kidsWhileOpen exampleOps exampleRoot exampleWorld = 1"
    using k2(3) by (simp add: exampleOps_def s1 s2 s3 exampleRoot_fields(3))
  from childSpanCount_counts_open_subspans [OF run exampleRoot_details]
  obtain d' where "details (countKid (nextKid r2)) = Some d'"
    "ChildSpanCount d' = ChildSpanCount (emptyDetails\<lparr>SpanId := HexSpanID 5, StartTime := Some 100\<rparr>)
        + of_nat (kidsWhileOpen exampleOps exampleRoot exampleWorld)"
    by blast
  then have "details (countKid (nextKid r2)) = Some d' \<and> ChildSpanCount d' = 1"
    by (simp add: kids emptyDetails_def)
  with run kids exampleRoot_details show ?thesis by blast
qed

subsection \<open>Trace IDs\<close>

lemma length_hexn [simp]: "length (hexn k n) = k"
  by (induction k arbitrary: n) simp_all

lemma hexdigit_all:
  "\<forall>d\<in>set [0..<16]. hexdigit d \<in> set ''0123456789abcdef'' \<and> (hexdigit d = CHR ''0'') = (d = 0)"
  by code_simp

lemma hexdigit_cases:
  "d < 16 \<Longrightarrow> hexdigit d \<in> set ''0123456789abcdef'' \<and> (hexdigit d = CHR ''0'' \<longrightarrow> d = 0)"
proof -
  assume "d < 16"
  then have "d \<in> set [0..<16]" by simp
  from hexdigit_all [rule_format, OF this] show ?thesis by blast
qed

lemma set_hexn: "set (hexn k n) \<subseteq> set ''0123456789abcdef''"
proof (induction k arbitrary: n)
  case 0
  then show ?case by simp
next
  case (Suc k)
  have "hexdigit (n mod 16) \<in> set ''0123456789abcdef''"
    using hexdigit_cases [of "n mod 16"] by simp
  with Suc.IH [of "n div 16"] show ?case by simp
qed

lemma hexn_zero: "hexn k n = replicate k (CHR ''0'') \<Longrightarrow> n mod 16 ^ k = 0"
proof (induction k arbitrary: n)
  case 0
  then show ?case by simp
next
  case (Suc k)
  have "replicate (Suc k) (CHR ''0'') = replicate k (CHR ''0'') @ [CHR ''0'']"
    by (simp add: replicate_append_same)
  with Suc.prems have a: "hexn k (n div 16) = replicate k (CHR ''0'')"
    and b: "hexdigit (n mod 16) = CHR ''0''"
    by simp_all
  from b hexdigit_cases [of "n mod 16"] have "n mod 16 = 0" by simp
  moreover from Suc.IH [OF a] have "(n div 16) mod 16 ^ k = 0" .
  ultimately show ?case
    by (simp add: mod_mult2_eq)
qed

lemma HexSpanID_zero: "HexSpanID x = replicate 16 (CHR ''0'') \<Longrightarrow> x = 0"
proof -
  assume "HexSpanID x = replicate 16 (CHR ''0'')"
  then have "unat x mod 16 ^ 16 = 0"
    unfolding HexSpanID_def by (rule hexn_zero)
  moreover have "unat x < 16 ^ 16"
    using unsigned_less [of x, where 'a = nat] by simp
  ultimately have "unat x = 0" by simp
  then show ?thesis by (simp add: unat_eq_0)
qed

lemma NewSpanID_loop_nonzero:
  "NewSpanID_loop old sp ms = Some (sp', ms') \<Longrightarrow> sp' \<noteq> 0"
  by (induction ms arbitrary: sp) (auto split: if_splits)

lemma NewSpanID_nonzero: "NewSpanID old w = Inr (sp, w') \<Longrightarrow> sp \<noteq> 0"
  by (auto simp: NewSpanID_def Let_def split: list.splits option.splits
      dest: NewSpanID_loop_nonzero)

lemma NewSpanID_loop_enough:
  "Suc k \<le> length (filter (\<lambda>m. m \<noteq> 0) ms) \<Longrightarrow>
   \<exists>sp' ms'. NewSpanID_loop 0 sp ms = Some (sp', ms')
      \<and> k \<le> length (filter (\<lambda>m. m \<noteq> 0) ms')"
proof (induction ms arbitrary: sp)
  case Nil
  then show ?case by simp
next
  case (Cons m ms)
  show ?case
  proof (cases "sp \<noteq> 0")
    case True
    with Cons.prems show ?thesis by simp
  next
    case False
    show ?thesis
    proof (cases "m = 0")
      case True
      with Cons.prems have "Suc k \<le> length (filter (\<lambda>m. m \<noteq> 0) ms)" by simp
      from Cons.IH [OF this, of 0] False True show ?thesis by simp
    next
      case m: False
      with Cons.prems have k: "k \<le> length (filter (\<lambda>m. m \<noteq> 0) ms)" by simp
      have "NewSpanID_loop 0 m ms = Some (m, ms)"
        using m by (cases ms) simp_all
      with False k show ?thesis by simp
    qed
  qed
qed

lemma warnRandom_supplies [simp]:
  "mrand (warnRandom w) = mrand w" "crand (warnRandom w) = crand w"
  by (simp_all add: warnRandom_def)

lemma NewSpanID_enough:
  assumes "enoughRandom (Suc k) w"
  shows "\<exists>sp w'. NewSpanID 0 w = Inr (sp, w') \<and> sp \<noteq> 0 \<and> enoughRandom k w'"
proof -
  from assms obtain c cs where c: "crand w = c # cs" and l: "k \<le> length cs"
    and m: "Suc k \<le> length (filter (\<lambda>m. m \<noteq> 0) (mrand w))"
    by (cases "crand w") (auto simp: enoughRandom_def)
  let ?sp = "case c of None \<Rightarrow> 0 | Some v \<Rightarrow> v"
  let ?w1 = "if c = None then warnRandom (w\<lparr>crand := cs\<rparr>) else w\<lparr>crand := cs\<rparr>"
  have mw: "mrand ?w1 = mrand w" "crand ?w1 = cs" by simp_all
  from NewSpanID_loop_enough [OF m, of ?sp] obtain sp' ms' where
    r: "NewSpanID_loop 0 ?sp (mrand w) = Some (sp', ms')"
    and k: "k \<le> length (filter (\<lambda>m. m \<noteq> 0) ms')"
    by blast
  have "NewSpanID 0 w = Inr (sp', ?w1\<lparr>mrand := ms'\<rparr>)"
    using r by (simp add: NewSpanID_def c Let_def mw del: if_split split del: if_split)
  moreover have "enoughRandom k (?w1\<lparr>mrand := ms'\<rparr>)"
    using l k by (simp add: enoughRandom_def)
  moreover have "sp' \<noteq> 0" using r by (rule NewSpanID_loop_nonzero)
  ultimately show ?thesis by blast
qed

text \<open>
  C7.  Whatever the old trace ID, \<^verbatim>\<open>NewTraceID\<close> returns (as soon as the random supplies
  last for its two \<^verbatim>\<open>NewSpanID(0)\<close> calls) a string of 32 characters, all of them
  lowercase hexadecimal digits and not all of them \<open>0\<close>: the 128-bit value is not zero.
  When the old trace ID has length 32, the value \<^verbatim>\<open>ParseUint\<close> reads from its first 16
  bytes is added to the first new span ID and the value of its last 16 bytes to the second,
  the first sum rendered first; the second addition is undone in the one case where both
  sums are zero, which is how the result stays nonzero.  Otherwise the two span IDs are
  rendered as they are.
\<close>

theorem NewTraceID_nonzero_hex:
  assumes "enoughRandom 2 w"
  shows "\<exists>tid w' one two w1.
     NewTraceID old w = Inr (tid, w')
     \<and> NewSpanID 0 w = Inr (one, w1) \<and> NewSpanID 0 w1 = Inr (two, w')
     \<and> length tid = 32 \<and> set tid \<subseteq> set ''0123456789abcdef''
     \<and> tid \<noteq> replicate 32 (CHR ''0'')
     \<and> (length old = 32 \<longrightarrow>
          tid = HexSpanID (one + ParseUint16 (take 16 old))
                @ HexSpanID (if one + ParseUint16 (take 16 old) = 0
                                \<and> two + ParseUint16 (take 16 (drop 16 old)) = 0
                             then two else two + ParseUint16 (take 16 (drop 16 old))))
     \<and> (length old \<noteq> 32 \<longrightarrow> tid = HexSpanID one @ HexSpanID two)"
proof -
  have e2: "enoughRandom (Suc (Suc 0)) w" using assms by (simp add: numeral_2_eq_2)
  from NewSpanID_enough [OF e2] obtain one w1 where
    o: "NewSpanID 0 w = Inr (one, w1)" "one \<noteq> 0" "enoughRandom (Suc 0) w1" by blast
  from NewSpanID_enough [OF o(3)] obtain two w' where
    t: "NewSpanID 0 w1 = Inr (two, w')" "two \<noteq> 0" by blast
  let ?a1 = "ParseUint16 (take 16 old)"
  let ?a2 = "ParseUint16 (take 16 (drop 16 old))"
  let ?hi = "if length old = 32 then one + ?a1 else one"
  let ?lo = "if length old = 32
             then (if one + ?a1 = 0 \<and> two + ?a2 = 0 then two else two + ?a2) else two"
  let ?tid = "HexSpanID ?hi @ HexSpanID ?lo"
  have nz: "?hi \<noteq> 0 \<or> ?lo \<noteq> 0" using o(2) t(2) by auto
  have restore: "two + ?a2 = 0 \<Longrightarrow> - ?a2 = two"
    by (simp add: neg_eq_iff_add_eq_0 add.commute)
  have r: "NewTraceID old w = Inr (?tid, w')"
    using restore by (auto simp: NewTraceID_def o(1) t(1) Let_def)
  have len: "length ?tid = 32" by (simp add: HexSpanID_def)
  have hexs: "set ?tid \<subseteq> set ''0123456789abcdef''"
    using set_hexn [of 16 "unat ?hi"] set_hexn [of 16 "unat ?lo"]
    by (simp only: set_append HexSpanID_def Un_subset_iff) 
  have nonzero: "?tid \<noteq> replicate 32 (CHR ''0'')"
  proof
    assume "?tid = replicate 32 (CHR ''0'')"
    then have "HexSpanID ?hi @ HexSpanID ?lo = replicate 16 (CHR ''0'') @ replicate 16 (CHR ''0'')"
      by (simp only: replicate_add [symmetric]) simp
    then have "HexSpanID ?hi = replicate 16 (CHR ''0'') \<and> HexSpanID ?lo = replicate 16 (CHR ''0'')"
      by (subst (asm) append_eq_append_conv) (simp_all add: HexSpanID_def)
    then have "?hi = 0 \<and> ?lo = 0" by (blast dest: HexSpanID_zero)
    with nz show False by blast
  qed
  show ?thesis
    using r o(1) t(1) len hexs nonzero
    by (intro exI [of _ ?tid] exI [of _ w'] exI [of _ one] exI [of _ two] exI [of _ w1]) simp
qed


lemma enough_example: "enoughRandom 2 exampleWorld"
  by (simp add: enoughRandom_def exampleWorld_def)

lemma NewTraceID_example:
  "map_sum id fst (NewTraceID ''00000000000000010000000000000002'' exampleWorld)
     = Inr ''0000000000000007000000000000000b''"
  by code_simp

theorem NewTraceID_nonzero_hex_witness:
  "enoughRandom 2 exampleWorld
   \<and> (\<exists>tid w'. NewTraceID ''00000000000000010000000000000002'' exampleWorld = Inr (tid, w')
         \<and> tid = ''0000000000000007000000000000000b''
         \<and> length tid = 32 \<and> tid \<noteq> replicate 32 (CHR ''0''))"
proof -
  from NewTraceID_nonzero_hex [OF enough_example, of "''00000000000000010000000000000002''"]
  obtain tid w' where
    r: "NewTraceID ''00000000000000010000000000000002'' exampleWorld = Inr (tid, w')"
    and p: "length tid = 32" "tid \<noteq> replicate 32 (CHR ''0'')"
    by blast
  from r NewTraceID_example have "tid = ''0000000000000007000000000000000b''" by simp
  with r p enough_example show ?thesis by blast
qed

subsection \<open>The walk of the child span IDs\<close>

lemma odd_uint: "odd (uint (w :: 'a::len word)) \<longleftrightarrow> odd w"
  by transfer simp

lemma odd_mult_cancel:
  fixes x inc :: "'a::len word"
  assumes "odd inc" and "x * inc = 0"
  shows "x = 0"
proof -
  have "2 ^ LENGTH('a) dvd uint x * uint inc"
    using assms(2) by (metis uint_word_ariths(3) word_uint_eq_iff uint_0_eq mod_0_imp_dvd)
  moreover have "coprime (uint inc) (2 ^ LENGTH('a))"
    using assms(1) by (simp add: odd_uint)
  ultimately have "2 ^ LENGTH('a) dvd uint x"
    by (metis coprime_commute coprime_dvd_mult_left_iff)
  then show ?thesis
    by (metis uint_bounded uint_ge_0 zdvd_not_zless word_uint_eq_iff uint_0_eq less_le)
qed

lemma stride_0 [simp]: "stride inc k 0 = k"
  by (simp add: stride_def)

lemma stride_shift: "stride inc (stride inc k a) m = stride inc k (a + m)"
  by (simp add: stride_def distrib_right)

lemma stride_shift1: "stride inc (stride inc k (Suc 0)) m = stride inc k (Suc m)"
  by (simp add: stride_shift)

lemma stride_shift2: "stride inc (stride inc k (Suc (Suc 0))) m = stride inc k (Suc (Suc m))"
  by (simp add: stride_shift)

lemma stride_inj:
  assumes "odd inc" and "a \<le> b" and "b - a < 2 ^ 64" and "stride inc k a = stride inc k b"
  shows "a = b"
proof -
  have "of_nat (b - a) * inc = 0"
    using assms(2,4) by (simp add: stride_def of_nat_diff left_diff_distrib)
  then have "(of_nat (b - a) :: u64) = 0"
    using assms(1) by (rule odd_mult_cancel [rotated])
  then have "b - a = 0"
    using assms(3) of_nat_neq_0 [of "b - a", where 'a = 64] by (cases "b - a = 0") auto
  with assms(2) show ?thesis by simp
qed

lemma walkStep_plain:
  "stride inc k (Suc 0) \<noteq> 0 \<Longrightarrow> walkStep inc k = stride inc k (Suc 0)"
  by (simp add: walkStep_def stride_def)

lemma walkStep_skip:
  "stride inc k (Suc 0) = 0 \<Longrightarrow> walkStep inc k = stride inc k (Suc (Suc 0))"
  by (simp add: walkStep_def stride_def algebra_simps)

lemma walkStep_nonzero: "odd inc \<Longrightarrow> walkStep inc k \<noteq> 0"
  by (auto simp: walkStep_def)

lemma walk_plain:
  "(\<forall>p. 1 \<le> p \<and> p \<le> n \<longrightarrow> stride inc k p \<noteq> 0) \<Longrightarrow>
   walk inc k n = map (stride inc k) [Suc 0..<Suc n]"
proof (induction n arbitrary: k)
  case 0
  then show ?case by simp
next
  case (Suc n)
  have k1: "stride inc k (Suc 0) \<noteq> 0" using Suc.prems by simp
  have "\<forall>p. 1 \<le> p \<and> p \<le> n \<longrightarrow> stride inc (stride inc k (Suc 0)) p \<noteq> 0"
    using Suc.prems by (simp add: stride_shift1)
  from Suc.IH [OF this]
  have "walk inc (stride inc k (Suc 0)) n = map (stride inc k) (map Suc [Suc 0..<Suc n])"
    by (simp add: stride_shift1 o_def)
  also have "map Suc [Suc 0..<Suc n] = [Suc (Suc 0)..<Suc (Suc n)]"
    by (simp only: map_Suc_upt)
  finally have "walk inc (stride inc k (Suc 0)) n
                  = map (stride inc k) [Suc (Suc 0)..<Suc (Suc n)]" .
  moreover have "[Suc 0..<Suc (Suc n)] = Suc 0 # [Suc (Suc 0)..<Suc (Suc n)]"
    by (simp add: upt_conv_Cons)
  ultimately show ?case
    by (simp only: walk.simps walkStep_plain [OF k1] list.map)
qed

lemma walk_positions:
  assumes "odd inc"
  shows "(\<forall>p q. 1 \<le> p \<and> p < q \<and> q \<le> Suc n \<and> stride inc k p = 0 \<longrightarrow> stride inc k q \<noteq> 0) \<Longrightarrow>
    \<exists>ps. walk inc k n = map (stride inc k) ps \<and> sorted_wrt (<) ps \<and> set ps \<subseteq> {1..Suc n}
        \<and> length ps = n \<and> (\<forall>p\<in>set ps. stride inc k p \<noteq> 0)"
proof (induction n arbitrary: k)
  case 0
  then show ?case by simp
next
  case (Suc n)
  show ?case
  proof (cases "stride inc k (Suc 0) = 0")
    case False
    have "\<forall>p q. 1 \<le> p \<and> p < q \<and> q \<le> Suc n \<and> stride inc (stride inc k (Suc 0)) p = 0
            \<longrightarrow> stride inc (stride inc k (Suc 0)) q \<noteq> 0"
    proof (intro allI impI)
      fix p q
      assume "1 \<le> p \<and> p < q \<and> q \<le> Suc n \<and> stride inc (stride inc k (Suc 0)) p = 0"
      then have "1 \<le> Suc p \<and> Suc p < Suc q \<and> Suc q \<le> Suc (Suc n)
                   \<and> stride inc k (Suc p) = 0"
        by (simp add: stride_shift1)
      then have "stride inc k (Suc q) \<noteq> 0" using Suc.prems by blast
      then show "stride inc (stride inc k (Suc 0)) q \<noteq> 0" by (simp add: stride_shift1)
    qed
    from Suc.IH [OF this] obtain ps where
      ps: "walk inc (stride inc k (Suc 0)) n = map (stride inc (stride inc k (Suc 0))) ps"
        "sorted_wrt (<) ps" "set ps \<subseteq> {1..Suc n}" "length ps = n"
        "\<forall>p\<in>set ps. stride inc (stride inc k (Suc 0)) p \<noteq> 0"
      by blast
    let ?qs = "Suc 0 # map Suc ps"
    have "walk inc k (Suc n) = map (stride inc k) ?qs"
      using ps(1) by (simp add: walkStep_plain [OF False] stride_shift1 o_def)
    moreover have "sorted_wrt (<) ?qs"
      using ps(2,3) by (auto simp: sorted_wrt_map)
    moreover have "set ?qs \<subseteq> {1..Suc (Suc n)}"
      using ps(3) by auto
    moreover have "length ?qs = Suc n" using ps(4) by simp
    moreover have "\<forall>p\<in>set ?qs. stride inc k p \<noteq> 0"
      using ps(5) False by (auto simp: stride_shift1)
    ultimately show ?thesis by blast
  next
    case True
    have nz: "\<forall>q. 1 < q \<and> q \<le> Suc (Suc n) \<longrightarrow> stride inc k q \<noteq> 0"
    proof (intro allI impI)
      fix q assume "1 < q \<and> q \<le> Suc (Suc n)"
      then have "1 \<le> Suc 0 \<and> Suc 0 < q \<and> q \<le> Suc (Suc n) \<and> stride inc k (Suc 0) = 0"
        using True by simp
      then show "stride inc k q \<noteq> 0" using Suc.prems by blast
    qed
    have "\<forall>p. 1 \<le> p \<and> p \<le> n \<longrightarrow> stride inc (stride inc k (Suc (Suc 0))) p \<noteq> 0"
      using nz by (simp add: stride_shift2)
    from walk_plain [OF this]
    have w: "walk inc (stride inc k (Suc (Suc 0))) n
               = map (stride inc k) (map (\<lambda>p. Suc (Suc p)) [Suc 0..<Suc n])"
      by (simp add: stride_shift2 o_def)
    let ?qs = "Suc (Suc 0) # map (\<lambda>p. Suc (Suc p)) [Suc 0..<Suc n]"
    have "walk inc k (Suc n) = map (stride inc k) ?qs"
      using w by (simp add: walkStep_skip [OF True])
    moreover have "sorted_wrt (<) ?qs"
      by (auto simp add: sorted_wrt_map simp del: upt_Suc)
    moreover have "set ?qs \<subseteq> {1..Suc (Suc n)}"
      by auto
    moreover have "length ?qs = Suc n" by simp
    moreover have "\<forall>p\<in>set ?qs. stride inc k p \<noteq> 0"
      using nz by auto
    ultimately show ?thesis by blast
  qed
qed

lemma one_zero:
  assumes "odd inc" and "Suc n \<le> 2 ^ 64"
  shows "\<forall>p q. 1 \<le> p \<and> p < q \<and> q \<le> Suc n \<and> stride inc k p = 0 \<longrightarrow> stride inc k q \<noteq> 0"
proof (intro allI impI notI)
  fix p q
  assume a: "1 \<le> p \<and> p < q \<and> q \<le> Suc n \<and> stride inc k p = 0" and b: "stride inc k q = 0"
  have "p = q"
    by (rule stride_inj [OF assms(1), of p q k]) (use a b assms(2) in auto)
  with a show False by simp
qed

lemma walk_distinct:
  assumes "odd inc" and "n < 2 ^ 64"
  shows "distinct (walk inc k n) \<and> 0 \<notin> set (walk inc k n) \<and> length (walk inc k n) = n"
proof -
  from assms(2) have le: "Suc n \<le> 2 ^ 64" by simp
  from walk_positions [OF assms(1) one_zero [OF assms(1) le], of k]
  obtain ps where ps: "walk inc k n = map (stride inc k) ps" "sorted_wrt (<) ps"
      "set ps \<subseteq> {1..Suc n}" "length ps = n" "\<forall>p\<in>set ps. stride inc k p \<noteq> 0"
    by blast
  have "inj_on (stride inc k) (set ps)"
  proof (rule inj_onI)
    fix a b assume ab: "a \<in> set ps" "b \<in> set ps" "stride inc k a = stride inc k b"
    then have r: "1 \<le> a" "a \<le> Suc n" "1 \<le> b" "b \<le> Suc n" using ps(3) by auto
    show "a = b"
    proof (cases "a \<le> b")
      case True
      show ?thesis by (rule stride_inj [OF assms(1) True _ ab(3)]) (use r le in linarith)
    next
      case False
      then have "b \<le> a" by simp
      from stride_inj [OF assms(1) this _ ab(3) [symmetric]] r le show ?thesis by linarith
    qed
  qed
  moreover have "distinct ps" using ps(2) by (simp add: strict_sorted_iff)
  ultimately have "distinct (walk inc k n)"
    by (simp add: ps(1) distinct_map)
  moreover have "0 \<notin> set (walk inc k n)"
    using ps(5) by (auto simp: ps(1))
  ultimately show ?thesis by (simp add: ps(1) ps(4))
qed


subsection \<open>Successive sub-spans\<close>

lemma makeKid_child: "isChildOf s now (FSpan (makeKid s now))"
  by (simp add: isChildOf_def makeKid_def initDetails_def newSpan_def SetSpanID_def Let_def
      emptyDetails_def)

lemma makeKid_id [simp]: "spanID (ro (makeKid s now)) = kidSpan s"
  by (simp add: makeKid_def initDetails_def newSpan_def SetSpanID_def Let_def)

lemma isChildOf_cong:
  "ro P' = ro P \<Longrightarrow> start P' = start P \<Longrightarrow> ch P' = ch P \<Longrightarrow> isChildOf P' = isChildOf P"
proof (intro ext)
  fix now f
  assume "ro P' = ro P" "start P' = start P" "ch P' = ch P"
  then show "isChildOf P' now f = isChildOf P now f"
    by (cases f) (simp_all add: isChildOf_def)
qed

lemma NewSubSpans_started:
  "spanID (ro s) \<noteq> 0 \<Longrightarrow> kidSpan s \<noteq> 0 \<Longrightarrow> odd (spanInc s) \<Longrightarrow>
   \<exists>fs s'. NewSubSpans nows s w = Inr (fs, s', w)
     \<and> map GetSpanID fs = walk (spanInc s) (kidSpan s) (length nows)
     \<and> list_all2 (isChildOf s) nows fs
     \<and> ro s' = ro s \<and> start s' = start s \<and> ch s' = ch s \<and> end_time s' = end_time s
     \<and> spanInc s' = spanInc s \<and> kidSpan s' \<noteq> 0"
proof (induction nows arbitrary: s)
  case Nil
  then show ?case by simp
next
  case (Cons now nows)
  let ?s1 = "countKid (nextKid s)"
  have a: "spanID (ro ?s1) \<noteq> 0" "kidSpan ?s1 \<noteq> 0" "odd (spanInc ?s1)"
    using Cons.prems by (simp_all add: walkStep_nonzero)
  from Cons.IH [OF a] obtain fs s' where
    r: "NewSubSpans nows ?s1 w = Inr (fs, s', w)"
    and m: "map GetSpanID fs = walk (spanInc ?s1) (kidSpan ?s1) (length nows)"
    and c: "list_all2 (isChildOf ?s1) nows fs"
    and f: "ro s' = ro ?s1" "start s' = start ?s1" "ch s' = ch ?s1" "end_time s' = end_time ?s1"
      "spanInc s' = spanInc ?s1" "kidSpan s' \<noteq> 0"
    by blast
  have c': "list_all2 (isChildOf s) nows fs"
    using c by (simp add: isChildOf_cong [of ?s1 s])
  have k: "isChildOf s now (FSpan (makeKid ?s1 now))"
    using makeKid_child [of ?s1 now] by (simp add: isChildOf_cong [of ?s1 s])
  show ?case
    using Cons.prems(1,2) r m c' k f
    by (simp add: NewSubSpan_started)
qed

lemma NewSubSpans_fresh:
  assumes "spanID (ro s) \<noteq> 0" and "kidSpan s = 0" and "NewSpanID 0 w = Inr (r, w1)"
    and "nows \<noteq> []"
  shows "\<exists>fs s'. NewSubSpans nows s w = Inr (fs, s', w1)
     \<and> map GetSpanID fs = walk (1 OR r) (spanID (ro s)) (length nows)
     \<and> list_all2 (isChildOf s) nows fs
     \<and> ro s' = ro s \<and> start s' = start s \<and> ch s' = ch s \<and> end_time s' = end_time s
     \<and> spanInc s' = 1 OR r \<and> kidSpan s' \<noteq> 0"
proof -
  from assms(4) obtain now rest where n: "nows = now # rest" by (cases nows) auto
  let ?s0 = "s\<lparr>kidSpan := spanID (ro s), spanInc := 1 OR r\<rparr>"
  let ?s1 = "countKid (nextKid ?s0)"
  have od: "odd (1 OR r)" by (simp add: even_or_iff)
  have a: "spanID (ro ?s1) \<noteq> 0" "kidSpan ?s1 \<noteq> 0" "odd (spanInc ?s1)"
    using assms(1) od by (simp_all add: walkStep_nonzero)
  from NewSubSpans_started [OF a, of rest w1] obtain fs s' where
    r: "NewSubSpans rest ?s1 w1 = Inr (fs, s', w1)"
    and m: "map GetSpanID fs = walk (spanInc ?s1) (kidSpan ?s1) (length rest)"
    and c: "list_all2 (isChildOf ?s1) rest fs"
    and f: "ro s' = ro ?s1" "start s' = start ?s1" "ch s' = ch ?s1" "end_time s' = end_time ?s1"
      "spanInc s' = spanInc ?s1" "kidSpan s' \<noteq> 0"
    by blast
  have c': "list_all2 (isChildOf s) rest fs"
    using c by (simp add: isChildOf_cong [of ?s1 s])
  have k: "isChildOf s now (FSpan (makeKid ?s1 now))"
    using makeKid_child [of ?s1 now] by (simp add: isChildOf_cong [of ?s1 s])
  show ?thesis
    using assms(1,2,3) r m c' k f
    by (simp add: n NewSubSpan_fresh)
qed

lemma children_are_spans:
  "list_all2 (isChildOf P) nows fs \<Longrightarrow> \<forall>f\<in>set fs. \<exists>kid. f = FSpan kid"
proof
  fix f assume a: "list_all2 (isChildOf P) nows fs" and "f \<in> set fs"
  then obtain i where i: "i < length fs" "fs ! i = f" by (auto simp: in_set_conv_nth)
  with a have "isChildOf P (nows ! i) f"
    by (auto simp: list_all2_conv_all_nth)
  then show "\<exists>kid. f = FSpan kid"
    by (cases f) (simp_all add: isChildOf_def)
qed

text \<open>
  C1.  On a parent whose span ID is not zero, \<open>N < 2^64\<close> successive \<^verbatim>\<open>NewSubSpan\<close> calls
  return \<open>N\<close> new spans whose span IDs are pairwise distinct and not zero, and these IDs
  are the walk of the specification: from the span ID of the parent on the first call
  ever made on it (when \<^verbatim>\<open>kidSpan\<close> is still zero), every call adds \<^verbatim>\<open>spanInc\<close>, and
  adds it once more when the sum is zero.  \<^verbatim>\<open>spanInc\<close> is set on that first call to
  \<^verbatim>\<open>1 | NewSpanID(0)\<close>, is odd, and stays as it is afterwards; so the same holds for any
  later \<open>N\<close> successive calls, which go on from the last child ID with the same odd
  stride.
\<close>

theorem subspan_ids_distinct:
  assumes "spanID (ro p) \<noteq> 0" and "length nows < 2 ^ 64"
  shows "(kidSpan p = 0 \<and> nows \<noteq> [] \<and> NewSpanID 0 w = Inr (r, w1) \<longrightarrow>
            (\<exists>fs p'. NewSubSpans nows p w = Inr (fs, p', w1)
               \<and> length fs = length nows \<and> (\<forall>f\<in>set fs. \<exists>kid. f = FSpan kid)
               \<and> map GetSpanID fs = walk (1 OR r) (spanID (ro p)) (length nows)
               \<and> distinct (map GetSpanID fs) \<and> 0 \<notin> set (map GetSpanID fs)
               \<and> spanInc p' = 1 OR r \<and> odd (spanInc p') \<and> kidSpan p' \<noteq> 0))
       \<and> (kidSpan p \<noteq> 0 \<and> odd (spanInc p) \<longrightarrow>
            (\<exists>fs p'. NewSubSpans nows p w = Inr (fs, p', w)
               \<and> length fs = length nows \<and> (\<forall>f\<in>set fs. \<exists>kid. f = FSpan kid)
               \<and> map GetSpanID fs = walk (spanInc p) (kidSpan p) (length nows)
               \<and> distinct (map GetSpanID fs) \<and> 0 \<notin> set (map GetSpanID fs)
               \<and> spanInc p' = spanInc p \<and> kidSpan p' \<noteq> 0))"
proof (intro conjI impI)
  assume a: "kidSpan p = 0 \<and> nows \<noteq> [] \<and> NewSpanID 0 w = Inr (r, w1)"
  have od: "odd (1 OR r)" by (simp add: even_or_iff)
  from a NewSubSpans_fresh [OF assms(1), of w r w1 nows] obtain fs p' where
    f: "NewSubSpans nows p w = Inr (fs, p', w1)"
      "map GetSpanID fs = walk (1 OR r) (spanID (ro p)) (length nows)"
      "list_all2 (isChildOf p) nows fs" "spanInc p' = 1 OR r" "kidSpan p' \<noteq> 0"
    by blast
  from walk_distinct [OF od assms(2), of "spanID (ro p)"] f(2)
  have dz: "distinct (map GetSpanID fs)" "0 \<notin> set (map GetSpanID fs)" by simp_all
  have len: "length fs = length nows" using f(3) by (simp add: list_all2_lengthD)
  have od': "odd (spanInc p')" using od f(4) by simp
  show "\<exists>fs p'. NewSubSpans nows p w = Inr (fs, p', w1)
               \<and> length fs = length nows \<and> (\<forall>f\<in>set fs. \<exists>kid. f = FSpan kid)
               \<and> map GetSpanID fs = walk (1 OR r) (spanID (ro p)) (length nows)
               \<and> distinct (map GetSpanID fs) \<and> 0 \<notin> set (map GetSpanID fs)
               \<and> spanInc p' = 1 OR r \<and> odd (spanInc p') \<and> kidSpan p' \<noteq> 0"
    using f(1,2,4,5) dz len od' children_are_spans [OF f(3)] by blast
next
  assume a: "kidSpan p \<noteq> 0 \<and> odd (spanInc p)"
  from a NewSubSpans_started [OF assms(1), of nows w] obtain fs p' where
    f: "NewSubSpans nows p w = Inr (fs, p', w)"
      "map GetSpanID fs = walk (spanInc p) (kidSpan p) (length nows)"
      "list_all2 (isChildOf p) nows fs" "spanInc p' = spanInc p" "kidSpan p' \<noteq> 0"
    by blast
  from a walk_distinct [OF _ assms(2), of "spanInc p" "kidSpan p"] f(2)
  have dz: "distinct (map GetSpanID fs)" "0 \<notin> set (map GetSpanID fs)" by simp_all
  have len: "length fs = length nows" using f(3) by (simp add: list_all2_lengthD)
  show "\<exists>fs p'. NewSubSpans nows p w = Inr (fs, p', w)
               \<and> length fs = length nows \<and> (\<forall>f\<in>set fs. \<exists>kid. f = FSpan kid)
               \<and> map GetSpanID fs = walk (spanInc p) (kidSpan p) (length nows)
               \<and> distinct (map GetSpanID fs) \<and> 0 \<notin> set (map GetSpanID fs)
               \<and> spanInc p' = spanInc p \<and> kidSpan p' \<noteq> 0"
    using f(1,2,4,5) dz len children_are_spans [OF f(3)] by blast
qed





theorem subspan_ids_distinct_witness:
  "spanID (ro exampleRoot) \<noteq> 0 \<and> length [110, 120, 130 :: time] < 2 ^ 64
   \<and> kidSpan exampleRoot = 0
   \<and> NewSpanID 0 exampleWorld = Inr (6, exampleWorld\<lparr>crand := [Some 9, None]\<rparr>)
   \<and> (\<exists>fs p'. NewSubSpans [110, 120, 130] exampleRoot exampleWorld
                  = Inr (fs, p', exampleWorld\<lparr>crand := [Some 9, None]\<rparr>)
          \<and> map GetSpanID fs = [12, 19, 26] \<and> distinct (map GetSpanID fs)
          \<and> spanInc p' = 7)"
proof -
  have id: "spanID (ro exampleRoot) \<noteq> 0" "kidSpan exampleRoot = 0"
    by (simp_all add: exampleRoot_def initDetails_def newSpan_def)
  have n: "length [110, 120, 130 :: time] < 2 ^ 64" by simp
  have l: "length [110, 120, 130 :: time] = 3" by simp
  have "walk (1 OR 6) 5 3 = [12, 19, 26]" by code_simp
  then have w: "walk (1 OR 6) (spanID (ro exampleRoot)) 3 = [12, 19, 26]"
    by (simp only: exampleRoot_fields)
  from subspan_ids_distinct [OF id(1) n, of exampleWorld 6
      "exampleWorld\<lparr>crand := [Some 9, None]\<rparr>"] id(2) NewSpanID_example
  obtain fs p' where
    f: "NewSubSpans [110, 120, 130] exampleRoot exampleWorld
          = Inr (fs, p', exampleWorld\<lparr>crand := [Some 9, None]\<rparr>)"
      "map GetSpanID fs = walk (1 OR 6) (spanID (ro exampleRoot)) (length [110, 120, 130 :: time])"
      "distinct (map GetSpanID fs)" "spanInc p' = 1 OR 6"
    by auto
  from f(2) have "map GetSpanID fs = [12, 19, 26]"
    by (simp only: l w)
  moreover from f(4) have "spanInc p' = 7" by simp
  ultimately have "\<exists>fs p'. NewSubSpans [110, 120, 130] exampleRoot exampleWorld
                  = Inr (fs, p', exampleWorld\<lparr>crand := [Some 9, None]\<rparr>)
          \<and> map GetSpanID fs = [12, 19, 26] \<and> distinct (map GetSpanID fs)
          \<and> spanInc p' = 7"
    using f(1,3) by (intro exI [of _ fs] exI [of _ p']) (simp only: simp_thms)
  then show ?thesis
    using id n NewSpanID_example by (simp only: simp_thms)
qed


end
